theory Spec2Isabelle
  imports Complex_Main
begin

section \<open>JavaScript values used by the game\<close>

text \<open>
  The component in \<^verbatim>\<open>src/pages/index.js\<close> uses numbers in two roles.  The roll limit
  \<^verbatim>\<open>maxRolls\<close> is \<^verbatim>\<open>Infinity\<close>, the default \<open>10\<close> or a result of \<^verbatim>\<open>parseInt\<close>, which is
  an integer or \<^verbatim>\<open>NaN\<close>; such a number is a \<open>jsnum\<close>.  The sign of a zero is not kept
  in a \<open>jsnum\<close>: \<open>-0\<close> and \<open>0\<close> behave alike under \<^verbatim>\<open>||\<close> and \<^verbatim>\<open>>=\<close>, the operations
  the program applies to the limit.  The custom maximum is whatever
  \<^verbatim>\<open>Number(e.target.value)\<close> yields, fractions and \<open>-0\<close> included; it is a \<open>number\<close>,
  defined below.
\<close>

datatype jsnum = Fin int | Infinity | NegInfinity | NaN

text \<open>\<^verbatim>\<open>a >= b\<close> on numbers: every comparison with \<^verbatim>\<open>NaN\<close> is false.\<close>

fun js_ge :: "jsnum \<Rightarrow> jsnum \<Rightarrow> bool" where
  "js_ge NaN _ = False"
| "js_ge _ NaN = False"
| "js_ge (Fin a) (Fin b) = (b \<le> a)"
| "js_ge Infinity _ = True"
| "js_ge _ NegInfinity = True"
| "js_ge (Fin _) Infinity = False"
| "js_ge NegInfinity _ = False"

text \<open>\<^verbatim>\<open>a || b\<close> on numbers: \<^verbatim>\<open>0\<close> and \<^verbatim>\<open>NaN\<close> are the falsy numbers.\<close>

definition js_or :: "jsnum \<Rightarrow> jsnum \<Rightarrow> jsnum" where
  "js_or a b = (if a = Fin 0 \<or> a = NaN then b else a)"

subsection \<open>\<^verbatim>\<open>Number::toString\<close> and \<^verbatim>\<open>parseInt\<close>\<close>

definition digitChar :: "nat \<Rightarrow> char" where
  "digitChar d = char_of (48 + d)"

function natDigits :: "nat \<Rightarrow> string" where
  "natDigits n = (if n < 10 then [digitChar n] else natDigits (n div 10) @ [digitChar (n mod 10)])"
  by pat_completeness auto
termination
  by (relation "measure (\<lambda>n. n)") auto

declare natDigits.simps [simp del]

text \<open>
  A finite number other than zero is represented by the decimal that
  \<^verbatim>\<open>Number::toString\<close> prints for it: the shortest significand \<open>s\<close> (it has no
  trailing zero, so it is \<open>10 * q + d\<close> with a last digit \<open>d\<close> from \<open>1\<close> to \<open>9\<close>) and
  the exponent \<open>e\<close>, for the value \<open>\<plusminus> s * 10^e\<close>.  Distinct numbers have distinct
  representations, so equality is \<^verbatim>\<open>Object.is\<close>; \<open>2.5\<close> is
  \<open>Decimal False 2 D5 (- 1)\<close> and \<open>1e21\<close> is \<open>Decimal False 0 D1 21\<close>.
\<close>

datatype nzdigit = D1 | D2 | D3 | D4 | D5 | D6 | D7 | D8 | D9

fun nzdigitValue :: "nzdigit \<Rightarrow> nat" where
  "nzdigitValue D1 = 1"
| "nzdigitValue D2 = 2"
| "nzdigitValue D3 = 3"
| "nzdigitValue D4 = 4"
| "nzdigitValue D5 = 5"
| "nzdigitValue D6 = 6"
| "nzdigitValue D7 = 7"
| "nzdigitValue D8 = 8"
| "nzdigitValue D9 = 9"

datatype number =
    Decimal bool nat nzdigit int
  | Zero bool
  | PlusInfinity
  | MinusInfinity
  | NotANumber

text \<open>
  \<^verbatim>\<open>Number::toString\<close> for a positive finite number with significand \<open>s\<close> of \<open>k\<close>
  digits and \<open>n = k + e\<close>: plain decimal notation when \<open>-5 \<le> n \<le> 21\<close> (the digits
  followed by zeros, or with a point after \<open>n\<close> digits, or after \<open>0.\<close> and \<open>-n\<close>
  zeros), exponent notation otherwise.
\<close>

definition decimalString :: "nat \<Rightarrow> int \<Rightarrow> string" where
  "decimalString s e =
     (let ds = natDigits s; k = int (length ds); n = k + e
      in if - 5 \<le> n \<and> n \<le> 21 then
           (if k \<le> n then ds @ replicate (nat (n - k)) CHR ''0''
            else if 0 < n then take (nat n) ds @ ''.'' @ drop (nat n) ds
            else ''0.'' @ replicate (nat (- n)) CHR ''0'' @ ds)
         else
           (let ex = n - 1;
                es = (if ex < 0 then CHR ''-'' else CHR ''+'') # natDigits (nat \<bar>ex\<bar>)
            in if k = 1 then ds @ ''e'' @ es
               else hd ds # ''.'' @ tl ds @ ''e'' @ es))"

fun toString :: "number \<Rightarrow> string" where
  "toString NotANumber = ''NaN''"
| "toString (Zero _) = ''0''"
| "toString PlusInfinity = ''Infinity''"
| "toString MinusInfinity = ''-Infinity''"
| "toString (Decimal neg q d e) =
     (if neg then ''-'' else []) @ decimalString (10 * q + nzdigitValue d) e"

text \<open>The number of an integer literal: the trailing zeros go to the exponent.\<close>

function stripZeros :: "nat \<Rightarrow> nat \<Rightarrow> nat \<times> nat" where
  "stripZeros n e = (if n \<noteq> 0 \<and> n mod 10 = 0 then stripZeros (n div 10) (e + 1) else (n, e))"
  by pat_completeness auto
termination
  by (relation "measure (\<lambda>(n, e). n)") auto

declare stripZeros.simps [simp del]

definition nzdigitOf :: "nat \<Rightarrow> nzdigit" where
  "nzdigitOf d =
     (if d = 1 then D1 else if d = 2 then D2 else if d = 3 then D3 else if d = 4 then D4
      else if d = 5 then D5 else if d = 6 then D6 else if d = 7 then D7 else if d = 8 then D8
      else D9)"

definition numberOfInt :: "int \<Rightarrow> number" where
  "numberOfInt n =
     (if n = 0 then Zero False
      else let (m, e) = stripZeros (nat \<bar>n\<bar>) 0
           in Decimal (n < 0) (m div 10) (nzdigitOf (m mod 10)) (int e))"

text \<open>
  \<^verbatim>\<open>parseInt(string)\<close> with no radix argument: leading white space is skipped, an
  optional sign is read, a \<^verbatim>\<open>0x\<close> prefix selects radix 16, and the longest prefix of
  digits of the radix is the result; with no digit the result is \<^verbatim>\<open>NaN\<close>.  Only the
  white space characters of ASCII are recognised here.
\<close>

definition isWhiteSpace :: "char \<Rightarrow> bool" where
  "isWhiteSpace c = (of_char c \<in> {32, 9, 10, 11, 12, 13 :: nat})"

definition digitValue :: "nat \<Rightarrow> char \<Rightarrow> nat option" where
  "digitValue radix c =
     (let k = (of_char c :: nat);
          v = (if 48 \<le> k \<and> k \<le> 57 then Some (k - 48)
               else if 97 \<le> k \<and> k \<le> 122 then Some (k - 87)
               else if 65 \<le> k \<and> k \<le> 90 then Some (k - 55)
               else None)
      in case v of None \<Rightarrow> None | Some d \<Rightarrow> if d < radix then Some d else None)"

definition digitsValue :: "nat \<Rightarrow> string \<Rightarrow> nat" where
  "digitsValue radix ds = foldl (\<lambda>acc c. acc * radix + the (digitValue radix c)) 0 ds"

definition parseIntString :: "string \<Rightarrow> jsnum" where
  "parseIntString str =
     (let s1 = dropWhile isWhiteSpace str;
          neg = (s1 \<noteq> [] \<and> hd s1 = CHR ''-'');
          s2 = (if s1 \<noteq> [] \<and> (hd s1 = CHR ''-'' \<or> hd s1 = CHR ''+'') then tl s1 else s1);
          hex = (take 2 s2 = ''0x'' \<or> take 2 s2 = ''0X'');
          radix = (if hex then 16 else 10);
          s3 = (if hex then drop 2 s2 else s2);
          ds = takeWhile (\<lambda>c. digitValue radix c \<noteq> None) s3
      in if ds = [] then NaN
         else Fin ((if neg then - 1 else 1) * int (digitsValue radix ds)))"

text \<open>\<^verbatim>\<open>parseInt(x)\<close> on a number converts it to a string first.\<close>

definition parseInt :: "number \<Rightarrow> jsnum" where
  "parseInt x = parseIntString (toString x)"

section \<open>The game state\<close>

text \<open>
  A die is \<^verbatim>\<open>{ id, value }\<close>; the field names carry a prefix because \<open>id\<close> is the
  identity function of HOL.
\<close>

record die =
  die_id :: nat
  die_value :: int

text \<open>
  \<^verbatim>\<open>rollDice\<close> starts an interval and a timeout whose callbacks close over the
  \<^verbatim>\<open>dice\<close> and \<^verbatim>\<open>frozenIds\<close> of the render in which the roll was started, and over the
  local variable \<^verbatim>\<open>tempDice\<close> that the interval callback reassigns.  One record holds
  what the two callbacks of a roll can see.  The interval is cleared by the timeout
  callback, so the pair is scheduled and retired together under one handle.
\<close>

record roll_closure =
  cl_dice :: "die list"
  cl_frozenIds :: "nat set"
  cl_tempDice :: "die list"

text \<open>
  The state variables of \<^verbatim>\<open>App\<close> (one field for each \<^verbatim>\<open>useState\<close>), followed by the
  pending timers of the browser and the next free timer handle.
\<close>

record app =
  numDice :: nat
  dice :: "die list"
  frozenIds :: "nat set"
  currentRoll :: nat
  maxRolls :: jsnum
  isRolling :: bool
  draggedId :: "nat option"
  dragOverId :: "nat option"
  score :: int
  theme :: string
  showOptions :: bool
  limitEnabled :: bool
  maxRollsSelection :: string
  customMaxRolls :: number
  timers :: "nat \<Rightarrow> roll_closure option"
  nextTimer :: nat

text \<open>The initial values passed to \<^verbatim>\<open>useState\<close>, with no timer pending.\<close>

definition initialState :: app where
  "initialState =
     \<lparr> numDice = 5, dice = [], frozenIds = {}, currentRoll = 0, maxRolls = Infinity,
       isRolling = False, draggedId = None, dragOverId = None, score = 0,
       theme = ''Default'', showOptions = False, limitEnabled = False,
       maxRollsSelection = ''3'', customMaxRolls = numberOfInt 10,
       timers = (\<lambda>_. None), nextTimer = 0 \<rparr>"

subsection \<open>Random faces\<close>

text \<open>
  \<^verbatim>\<open>Math.random()\<close> is an input of the model: a handler receives the sequence of the
  numbers its calls of \<^verbatim>\<open>Math.random()\<close> return, as exact rationals.  The face
  drawn is \<^verbatim>\<open>Math.floor(Math.random() * 6)\<close>.
\<close>

definition randomFace :: "rat \<Rightarrow> int" where
  "randomFace r = \<lfloor>r * 6\<rfloor>"

text \<open>
  \<^verbatim>\<open>ds.map(d => frozen.has(d.id) ? d : { ...d, value: Math.floor(Math.random() * 6) })\<close>:
  the \<open>k\<close>-th call of \<^verbatim>\<open>Math.random\<close> serves the \<open>k\<close>-th die that is not frozen.
\<close>

fun reroll :: "nat set \<Rightarrow> (nat \<Rightarrow> rat) \<Rightarrow> nat \<Rightarrow> die list \<Rightarrow> die list" where
  "reroll frozen rnd k [] = []"
| "reroll frozen rnd k (d # ds) =
     (if die_id d \<in> frozen then d # reroll frozen rnd k ds
      else d\<lparr>die_value := randomFace (rnd k)\<rparr> # reroll frozen rnd (Suc k) ds)"

subsection \<open>Array helpers\<close>

text \<open>\<^verbatim>\<open>Array.prototype.findIndex\<close>: the first index that satisfies the test, or \<open>-1\<close>.\<close>

fun findIndex :: "('a \<Rightarrow> bool) \<Rightarrow> 'a list \<Rightarrow> int" where
  "findIndex P [] = - 1"
| "findIndex P (x # xs) =
     (if P x then 0 else (let r = findIndex P xs in if r < 0 then - 1 else r + 1))"

text \<open>
  \<^verbatim>\<open>Array.prototype.splice(start, deleteCount, ...items)\<close>: a negative start counts
  from the end, and start and count are clamped to the array.  The result is the pair
  of the removed elements and the array after the call.
\<close>

definition spliceStart :: "'a list \<Rightarrow> int \<Rightarrow> nat" where
  "spliceStart xs start =
     (if start < 0 then nat (max (int (length xs) + start) 0)
      else min (nat start) (length xs))"

definition splice :: "'a list \<Rightarrow> int \<Rightarrow> nat \<Rightarrow> 'a list \<Rightarrow> 'a list \<times> 'a list" where
  "splice xs start deleteCount items =
     (let st = spliceStart xs start;
          dc = min deleteCount (length xs - st)
      in (take dc (drop st xs), take st xs @ items @ drop (st + dc) xs))"

section \<open>The handlers of the component\<close>

text \<open>
  A handler reads the state of the render it was created in and queues updates; React
  applies them and renders again before the next event is delivered.  So a handler is a
  function from the state before it to the state after it.
\<close>

subsection \<open>Drag and drop\<close>

definition handleDragStart :: "app \<Rightarrow> nat \<Rightarrow> app" where
  "handleDragStart s ident = s\<lparr>draggedId := Some ident\<rparr>"

definition handleDragEnter :: "app \<Rightarrow> nat \<Rightarrow> app" where
  "handleDragEnter s ident =
     (if draggedId s \<noteq> Some ident then s\<lparr>dragOverId := Some ident\<rparr> else s)"

definition handleDragEnd :: "app \<Rightarrow> app" where
  "handleDragEnd s = s\<lparr>draggedId := None, dragOverId := None\<rparr>"

text \<open>
  \<^verbatim>\<open>const [draggedItem] = newDice.splice(draggedIndex, 1)\<close> yields \<^verbatim>\<open>undefined\<close> when
  nothing was removed, which happens only on an empty array; the second splice would
  then store \<^verbatim>\<open>undefined\<close> among the dice and the next render would fail reading its
  \<^verbatim>\<open>id\<close>.  That outcome is \<open>None\<close>.
\<close>

definition handleDrop :: "app \<Rightarrow> nat \<Rightarrow> app option" where
  "handleDrop s targetId =
     (if draggedId s = None \<or> draggedId s = Some targetId then Some (handleDragEnd s)
      else
        let draggedIndex = findIndex (\<lambda>d. Some (die_id d) = draggedId s) (dice s);
            targetIndex = findIndex (\<lambda>d. die_id d = targetId) (dice s);
            (removed, newDice) = splice (dice s) draggedIndex 1 []
        in case removed of
             [] \<Rightarrow> None
           | draggedItem # _ \<Rightarrow>
               Some (handleDragEnd (s\<lparr>dice := snd (splice newDice targetIndex 0 [draggedItem])\<rparr>)))"

subsection \<open>Game logic\<close>

text \<open>\<^verbatim>\<open>currentDice.reduce((sum, d) => sum + d.value + 1, 0)\<close>, stored as the score.\<close>

definition calculateScore :: "die list \<Rightarrow> app \<Rightarrow> app" where
  "calculateScore currentDice s =
     s\<lparr>score := foldl (\<lambda>sum d. sum + die_value d + 1) 0 currentDice\<rparr>"

text \<open>
  \<^verbatim>\<open>Array.from({ length: numDice }, (_, i) => ({ id: i, value: ... }))\<close>: die \<open>i\<close> gets
  the \<open>i\<close>-th random number.
\<close>

definition initialDice :: "nat \<Rightarrow> (nat \<Rightarrow> rat) \<Rightarrow> die list" where
  "initialDice n rnd = map (\<lambda>i. \<lparr>die_id = i, die_value = randomFace (rnd i)\<rparr>) [0..<n]"

definition startNewGame :: "app \<Rightarrow> (nat \<Rightarrow> rat) \<Rightarrow> app" where
  "startNewGame s rnd =
     (let newMaxRolls =
            (if limitEnabled s then
               (if maxRollsSelection s = ''other''
                then js_or (parseInt (customMaxRolls s)) (Fin 10)
                else parseIntString (maxRollsSelection s))
             else Infinity)
      in calculateScore (initialDice (numDice s) rnd)
           (s\<lparr>maxRolls := newMaxRolls,
              dice := initialDice (numDice s) rnd,
              frozenIds := {},
              currentRoll := 0,
              isRolling := False\<rparr>))"

text \<open>
  \<^verbatim>\<open>rollDice\<close> up to the point where it returns: the guard, the two state updates,
  and the two timers, registered under the next free handle with \<^verbatim>\<open>tempDice\<close> a copy
  of the dice.
\<close>

definition rollDice :: "app \<Rightarrow> app" where
  "rollDice s =
     (if js_ge (Fin (int (currentRoll s))) (maxRolls s) then s
      else s\<lparr>isRolling := True,
             currentRoll := currentRoll s + 1,
             timers := (timers s)(nextTimer s \<mapsto>
                \<lparr>cl_dice = dice s, cl_frozenIds = frozenIds s, cl_tempDice = dice s\<rparr>),
             nextTimer := nextTimer s + 1\<rparr>)"

text \<open>The callback of \<^verbatim>\<open>setInterval\<close>, every 80 ms while the roll is pending.\<close>

definition intervalCallback :: "app \<Rightarrow> nat \<Rightarrow> (nat \<Rightarrow> rat) \<Rightarrow> app" where
  "intervalCallback s h rnd =
     (case timers s h of
        None \<Rightarrow> s
      | Some c \<Rightarrow>
          let tempDice = reroll (cl_frozenIds c) rnd 0 (cl_tempDice c)
          in s\<lparr>dice := tempDice, timers := (timers s)(h \<mapsto> c\<lparr>cl_tempDice := tempDice\<rparr>)\<rparr>)"

text \<open>
  The callback of \<^verbatim>\<open>setTimeout\<close>, 1000 ms after the roll started; it clears the
  interval, and a timeout fires once, so the handle is retired.
\<close>

definition timeoutCallback :: "app \<Rightarrow> nat \<Rightarrow> (nat \<Rightarrow> rat) \<Rightarrow> app" where
  "timeoutCallback s h rnd =
     (case timers s h of
        None \<Rightarrow> s
      | Some c \<Rightarrow>
          let finalDice = reroll (cl_frozenIds c) rnd 0 (cl_dice c)
          in (calculateScore finalDice (s\<lparr>dice := finalDice, timers := (timers s)(h := None)\<rparr>))
               \<lparr>isRolling := False\<rparr>)"

definition toggleFreeze :: "app \<Rightarrow> nat \<Rightarrow> app" where
  "toggleFreeze s ident =
     (if isRolling s \<or> currentRoll s = 0 then s
      else s\<lparr>frozenIds :=
               (if ident \<in> frozenIds s then frozenIds s - {ident}
                else insert ident (frozenIds s))\<rparr>)"

section \<open>Events and renders\<close>

text \<open>
  Everything that can run a handler: the gestures on the dice, the two buttons, the
  controls of the options panel with the values their \<^verbatim>\<open>onChange\<close> passes to the
  setters, and the two timer callbacks of a pending roll.
\<close>

datatype event =
    DragStart nat
  | DragEnter nat
  | DragEnd
  | Drop nat
  | ClickDie nat
  | ClickRoll
  | ClickNewGame
  | IntervalFire nat
  | TimeoutFire nat
  | SelectNumDice nat
  | ToggleLimit
  | SelectMaxRolls string
  | InputCustomMax number
  | SelectTheme string
  | ToggleOptions

text \<open>
  The drop handler of a die exists only while that die is rendered, so a drop on an
  identifier that no die carries is not an event of the page and changes nothing.
\<close>

fun handle :: "app \<Rightarrow> event \<Rightarrow> (nat \<Rightarrow> rat) \<Rightarrow> app" where
  "handle s (DragStart i) rnd = handleDragStart s i"
| "handle s (DragEnter i) rnd = handleDragEnter s i"
| "handle s DragEnd rnd = handleDragEnd s"
| "handle s (Drop i) rnd =
     (if i \<in> die_id ` set (dice s)
      then (case handleDrop s i of Some s' \<Rightarrow> s' | None \<Rightarrow> s) else s)"
| "handle s (ClickDie i) rnd = toggleFreeze s i"
| "handle s ClickRoll rnd = rollDice s"
| "handle s ClickNewGame rnd = startNewGame s rnd"
| "handle s (IntervalFire h) rnd = intervalCallback s h rnd"
| "handle s (TimeoutFire h) rnd = timeoutCallback s h rnd"
| "handle s (SelectNumDice n) rnd = s\<lparr>numDice := n\<rparr>"
| "handle s ToggleLimit rnd = s\<lparr>limitEnabled := \<not> limitEnabled s\<rparr>"
| "handle s (SelectMaxRolls v) rnd = s\<lparr>maxRollsSelection := v\<rparr>"
| "handle s (InputCustomMax v) rnd = s\<lparr>customMaxRolls := v\<rparr>"
| "handle s (SelectTheme t) rnd = s\<lparr>theme := t\<rparr>"
| "handle s ToggleOptions rnd = s\<lparr>showOptions := \<not> showOptions s\<rparr>"

text \<open>
  \<^verbatim>\<open>useEffect(() => { startNewGame(); }, [numDice, limitEnabled, maxRollsSelection,
  customMaxRolls])\<close>: after a render in which one of the four dependencies differs
  from the previous render, the effect runs \<^verbatim>\<open>startNewGame\<close> of the new render.
\<close>

definition deps :: "app \<Rightarrow> nat \<times> bool \<times> string \<times> number" where
  "deps s = (numDice s, limitEnabled s, maxRollsSelection s, customMaxRolls s)"

definition step :: "app \<Rightarrow> event \<Rightarrow> (nat \<Rightarrow> rat) \<Rightarrow> app" where
  "step s e rnd =
     (let s' = handle s e rnd
      in if deps s' \<noteq> deps s then startNewGame s' rnd else s')"

text \<open>A run of the page: events in order, each with the random numbers it consumes.\<close>

definition run :: "app \<Rightarrow> (event \<times> (nat \<Rightarrow> rat)) list \<Rightarrow> app" where
  "run s evs = foldl (\<lambda>st (e, rnd). step st e rnd) s evs"

text \<open>The first render is followed by the effect as well.\<close>

definition mount :: "(nat \<Rightarrow> rat) \<Rightarrow> app" where
  "mount rnd = startNewGame initialState rnd"

section \<open>Vocabulary of the properties\<close>

text \<open>
  The events after which the effect or the button runs \<^verbatim>\<open>startNewGame\<close>, and the
  click that can change the frozen set.
\<close>

fun startsGame :: "event \<Rightarrow> bool" where
  "startsGame ClickNewGame = True"
| "startsGame (SelectNumDice _) = True"
| "startsGame ToggleLimit = True"
| "startsGame (SelectMaxRolls _) = True"
| "startsGame (InputCustomMax _) = True"
| "startsGame _ = False"

fun togglesFreeze :: "event \<Rightarrow> bool" where
  "togglesFreeze (ClickDie _) = True"
| "togglesFreeze _ = False"

text \<open>
  \<open>frozenKept F before after\<close>: position by position the two arrays hold dice of the
  same identifier, and a die whose identifier is in \<open>F\<close> is the same die with the
  same value.  \<open>frozenDice F ds\<close> are the dice of \<open>ds\<close> whose identifier is in \<open>F\<close>.
\<close>

definition frozenKept :: "nat set \<Rightarrow> die list \<Rightarrow> die list \<Rightarrow> bool" where
  "frozenKept F before after =
     list_all2 (\<lambda>d d'. die_id d' = die_id d \<and> (die_id d \<in> F \<longrightarrow> d' = d)) before after"

definition frozenDice :: "nat set \<Rightarrow> die list \<Rightarrow> die list" where
  "frozenDice F ds = filter (\<lambda>d. die_id d \<in> F) ds"

text \<open>
  Invariants of the runs.  \<open>pendingRoll st h F D\<close>: the roll registered under handle
  \<open>h\<close> is still pending in \<open>st\<close>, its callbacks hold the dice \<open>D\<close> and the frozen
  set \<open>F\<close> of the render that started it, and its \<^verbatim>\<open>tempDice\<close> still agrees with \<open>D\<close>
  on the frozen dice.  \<open>frozenInv F D st\<close>: the frozen set is \<open>F\<close>, and the frozen
  dice on the page and in every pending callback are \<open>D\<close>.
\<close>

definition pendingRoll :: "app \<Rightarrow> nat \<Rightarrow> nat set \<Rightarrow> die list \<Rightarrow> bool" where
  "pendingRoll st h F D =
     (case timers st h of
        None \<Rightarrow> False
      | Some c \<Rightarrow> cl_dice c = D \<and> cl_frozenIds c = F \<and> frozenKept F D (cl_tempDice c)
                 \<and> h < nextTimer st)"

definition frozenInv :: "nat set \<Rightarrow> die set \<Rightarrow> app \<Rightarrow> bool" where
  "frozenInv F D st =
     (frozenIds st = F \<and> set (frozenDice F (dice st)) = D
      \<and> (\<forall>h c. timers st h = Some c \<longrightarrow>
            cl_frozenIds c = F \<and> set (frozenDice F (cl_dice c)) = D
            \<and> set (frozenDice F (cl_tempDice c)) = D))"

text \<open>
  The integer part of the decimal \<open>s * 10^e\<close>, which is what \<^verbatim>\<open>parseInt\<close> reads from a number
  printed in plain notation.
\<close>

definition integerPart :: "nat \<Rightarrow> int \<Rightarrow> nat" where
  "integerPart s e = (if 0 \<le> e then s * 10 ^ nat e else s div 10 ^ nat (- e))"

subsection \<open>Sample inputs\<close>

text \<open>Four sources of random numbers in \<open>[0, 1)\<close>, and a state in the middle of a game.\<close>

definition zeroRandom :: "nat \<Rightarrow> rat" where
  "zeroRandom k = 0"

definition halfRandom :: "nat \<Rightarrow> rat" where
  "halfRandom k = 1 / 2"

definition cycleRandom :: "nat \<Rightarrow> rat" where
  "cycleRandom k = of_nat (k mod 6) / 6"

definition descendRandom :: "nat \<Rightarrow> rat" where
  "descendRandom k = of_nat (5 - k mod 6) / 6"

definition midGame :: app where
  "midGame = initialState\<lparr>dice := initialDice 5 cycleRandom, frozenIds := {1}, currentRoll := 2\<rparr>"

definition customLimit :: "number \<Rightarrow> app" where
  "customLimit c =
     initialState\<lparr>limitEnabled := True, maxRollsSelection := ''other'', customMaxRolls := c\<rparr>"

definition limitThree :: app where
  "limitThree = initialState\<lparr>limitEnabled := True\<rparr>"

definition dragged13 :: app where
  "dragged13 = midGame\<lparr>draggedId := Some 1, dragOverId := Some 3\<rparr>"

text \<open>
  Runs: a reorder while the roll under handle \<open>0\<close> is pending; three complete rolls;
  and the clicks in the options panel that enter \<open>-5\<close> as the custom maximum.
\<close>

definition reorderDuringRoll :: "(event \<times> (nat \<Rightarrow> rat)) list" where
  "reorderDuringRoll =
     [(IntervalFire 0, halfRandom), (DragStart 0, zeroRandom), (Drop 2, zeroRandom)]"

definition threeRolls :: "(event \<times> (nat \<Rightarrow> rat)) list" where
  "threeRolls =
     [(ClickRoll, zeroRandom), (IntervalFire 0, cycleRandom), (TimeoutFire 0, halfRandom),
      (ClickRoll, zeroRandom), (TimeoutFire 1, cycleRandom),
      (ClickRoll, zeroRandom), (TimeoutFire 2, halfRandom)]"

definition negativeLimitEvents :: "(event \<times> (nat \<Rightarrow> rat)) list" where
  "negativeLimitEvents =
     [(ToggleLimit, zeroRandom), (SelectMaxRolls ''other'', zeroRandom),
      (InputCustomMax (numberOfInt (- 5)), zeroRandom)]"

section \<open>Basic facts\<close>

lemma foldl_score:
  "foldl (\<lambda>sum d. sum + die_value d + 1) a ds = a + (\<Sum>d\<leftarrow>ds. die_value d + 1)"
  by (induction ds arbitrary: a) simp_all

lemma randomFace_range:
  assumes "0 \<le> r" and "r < 1"
  shows "0 \<le> randomFace r" and "randomFace r \<le> 5"
proof -
  from assms(1) have "0 \<le> r * 6" by simp
  then show "0 \<le> randomFace r" by (simp add: randomFace_def)
  from assms(2) have "r * 6 < 6" by simp
  then have "\<lfloor>r * 6\<rfloor> < 6" by (simp add: floor_less_iff)
  then show "randomFace r \<le> 5" by (simp add: randomFace_def)
qed

lemma startNewGame_fields:
  "dice (startNewGame s rnd) = initialDice (numDice s) rnd"
  "frozenIds (startNewGame s rnd) = {}"
  "currentRoll (startNewGame s rnd) = 0"
  "isRolling (startNewGame s rnd) = False"
  "score (startNewGame s rnd) = (\<Sum>d\<leftarrow>initialDice (numDice s) rnd. die_value d + 1)"
  "timers (startNewGame s rnd) = timers s"
  "nextTimer (startNewGame s rnd) = nextTimer s"
  "numDice (startNewGame s rnd) = numDice s"
  "limitEnabled (startNewGame s rnd) = limitEnabled s"
  "maxRollsSelection (startNewGame s rnd) = maxRollsSelection s"
  "customMaxRolls (startNewGame s rnd) = customMaxRolls s"
  by (simp_all add: startNewGame_def calculateScore_def foldl_score Let_def)

lemma numberOfInt_samples:
  "numberOfInt 10 = Decimal False 0 D1 1"
  "numberOfInt 7 = Decimal False 0 D7 0"
  "numberOfInt (- 5) = Decimal True 0 D5 0"
  by (simp_all add: numberOfInt_def stripZeros.simps nzdigitOf_def)

lemma initialDice_ids: "map die_id (initialDice n rnd) = [0..<n]"
  by (simp add: initialDice_def comp_def)

lemma initialDice_length: "length (initialDice n rnd) = n"
  by (simp add: initialDice_def)

section \<open>The score\<close>

text \<open>
  Claim C7.  \<^verbatim>\<open>calculateScore\<close> depends on the dice it is given only: the score it
  stores is the sum of \<open>value + 1\<close> over them and nothing else of the state changes; for
  the values \<open>[0, 5, 2]\<close> it stores \<open>10\<close>.  The two callers pass the dice they store in
  the same update, so after \<^verbatim>\<open>startNewGame\<close> and after the timeout callback of a
  pending roll the stored score is that sum over the stored dice.
\<close>

theorem calculateScore_sum:
  "score (calculateScore ds s) = (\<Sum>d\<leftarrow>ds. die_value d + 1)
   \<and> calculateScore ds s = s\<lparr>score := (\<Sum>d\<leftarrow>ds. die_value d + 1)\<rparr>
   \<and> score (calculateScore
        [\<lparr>die_id = 0, die_value = 0\<rparr>, \<lparr>die_id = 1, die_value = 5\<rparr>, \<lparr>die_id = 2, die_value = 2\<rparr>] s) = 10
   \<and> score (startNewGame s rnd) = (\<Sum>d\<leftarrow>dice (startNewGame s rnd). die_value d + 1)
   \<and> score (timeoutCallback s h rnd) =
        (if timers s h = None then score s
         else (\<Sum>d\<leftarrow>dice (timeoutCallback s h rnd). die_value d + 1))"
  by (auto simp add: calculateScore_def foldl_score startNewGame_fields timeoutCallback_def Let_def
      split: option.splits)

section \<open>A new game\<close>

text \<open>
  Claim C5.  When the random numbers lie in \<open>[0, 1)\<close>, \<^verbatim>\<open>startNewGame\<close> stores exactly
  \<^verbatim>\<open>numDice\<close> dice, their identifiers are \<open>0, \<dots>, numDice - 1\<close> in this order, every
  value lies in \<open>0..5\<close>, the frozen set is empty, the roll counter is \<open>0\<close> and the score
  is the one computed from the fresh dice.  This holds for every \<^verbatim>\<open>numDice\<close>, so for
  \<open>1..6\<close>.
\<close>

theorem startNewGame_fresh:
  assumes "\<forall>k<numDice s. 0 \<le> rnd k \<and> rnd k < 1"
  shows "length (dice (startNewGame s rnd)) = numDice s
    \<and> map die_id (dice (startNewGame s rnd)) = [0..<numDice s]
    \<and> (\<forall>d\<in>set (dice (startNewGame s rnd)). 0 \<le> die_value d \<and> die_value d \<le> 5)
    \<and> frozenIds (startNewGame s rnd) = {}
    \<and> currentRoll (startNewGame s rnd) = 0
    \<and> score (startNewGame s rnd) = (\<Sum>d\<leftarrow>dice (startNewGame s rnd). die_value d + 1)"
proof -
  have "\<forall>d\<in>set (initialDice (numDice s) rnd). 0 \<le> die_value d \<and> die_value d \<le> 5"
    using assms by (auto simp add: initialDice_def randomFace_range)
  then show ?thesis
    by (simp add: startNewGame_fields initialDice_ids initialDice_length)
qed

theorem startNewGame_fresh_witness:
  "dice (startNewGame initialState cycleRandom) =
     [\<lparr>die_id = 0, die_value = 0\<rparr>, \<lparr>die_id = 1, die_value = 1\<rparr>, \<lparr>die_id = 2, die_value = 2\<rparr>,
      \<lparr>die_id = 3, die_value = 3\<rparr>, \<lparr>die_id = 4, die_value = 4\<rparr>]
   \<and> length (dice (startNewGame initialState cycleRandom)) = 5
   \<and> map die_id (dice (startNewGame initialState cycleRandom)) = [0, 1, 2, 3, 4]
   \<and> list_all (\<lambda>d. 0 \<le> die_value d \<and> die_value d \<le> 5) (dice (startNewGame initialState cycleRandom))
   \<and> frozenIds (startNewGame initialState cycleRandom) = {}
   \<and> currentRoll (startNewGame initialState cycleRandom) = 0
   \<and> score (startNewGame initialState cycleRandom) = 15"
proof -
  have h: "\<forall>k<numDice initialState. 0 \<le> cycleRandom k \<and> cycleRandom k < 1"
    by (simp add: cycleRandom_def)
  have d: "dice (startNewGame initialState cycleRandom) =
     [\<lparr>die_id = 0, die_value = 0\<rparr>, \<lparr>die_id = 1, die_value = 1\<rparr>, \<lparr>die_id = 2, die_value = 2\<rparr>,
      \<lparr>die_id = 3, die_value = 3\<rparr>, \<lparr>die_id = 4, die_value = 4\<rparr>]"
    by (simp add: startNewGame_fields initialDice_def initialState_def cycleRandom_def
        randomFace_def upt_rec [of _ "numeral _"])
  show ?thesis
    using startNewGame_fresh [OF h] d by (simp add: list_all_iff initialState_def)
qed

section \<open>Freezing a die\<close>

text \<open>
  Claim C8.  \<^verbatim>\<open>toggleFreeze(id)\<close> returns the state unchanged while a roll is in
  progress or before the first roll.  Otherwise it changes the frozen set only, the
  membership of \<^verbatim>\<open>id\<close> is flipped, the membership of every other identifier is kept,
  and a second call undoes the first.
\<close>

theorem toggleFreeze_flip:
  "(isRolling s \<or> currentRoll s = 0 \<longrightarrow> toggleFreeze s i = s)
   \<and> (\<not> isRolling s \<and> currentRoll s \<noteq> 0 \<longrightarrow>
        (\<forall>j. j \<in> frozenIds (toggleFreeze s i) \<longleftrightarrow> (if j = i then i \<notin> frozenIds s else j \<in> frozenIds s))
        \<and> toggleFreeze s i = s\<lparr>frozenIds := frozenIds (toggleFreeze s i)\<rparr>
        \<and> toggleFreeze (toggleFreeze s i) i = s)"
  by (auto simp add: toggleFreeze_def insert_absorb)

theorem toggleFreeze_flip_witness:
  "toggleFreeze initialState 2 = initialState
   \<and> toggleFreeze (initialState\<lparr>currentRoll := 1, isRolling := True\<rparr>) 2
       = initialState\<lparr>currentRoll := 1, isRolling := True\<rparr>
   \<and> 2 \<in> frozenIds (toggleFreeze (initialState\<lparr>currentRoll := 1\<rparr>) 2)
   \<and> 3 \<notin> frozenIds (toggleFreeze (initialState\<lparr>currentRoll := 1\<rparr>) 2)
   \<and> 2 \<notin> frozenIds (toggleFreeze (initialState\<lparr>currentRoll := 1, frozenIds := {2, 3}\<rparr>) 2)
   \<and> 3 \<in> frozenIds (toggleFreeze (initialState\<lparr>currentRoll := 1, frozenIds := {2, 3}\<rparr>) 2)
   \<and> toggleFreeze (toggleFreeze (initialState\<lparr>currentRoll := 1\<rparr>) 2) 2 = initialState\<lparr>currentRoll := 1\<rparr>"
  using toggleFreeze_flip [of initialState 2]
    toggleFreeze_flip [of "initialState\<lparr>currentRoll := 1, isRolling := True\<rparr>" 2]
    toggleFreeze_flip [of "initialState\<lparr>currentRoll := 1\<rparr>" 2]
    toggleFreeze_flip [of "initialState\<lparr>currentRoll := 1, frozenIds := {2, 3}\<rparr>" 2]
  by (simp add: initialState_def)

section \<open>Options and presentation\<close>

text \<open>
  Claim C9.  A change of \<^verbatim>\<open>numDice\<close>, of the limit toggle, of the roll-limit selection
  or of the custom maximum is followed by the effect, which runs \<^verbatim>\<open>startNewGame\<close> on
  the changed options; afterwards the frozen set is empty and the roll counter is \<open>0\<close>.
\<close>

theorem option_change_resets:
  "(n \<noteq> numDice s \<longrightarrow>
      step s (SelectNumDice n) rnd = startNewGame (s\<lparr>numDice := n\<rparr>) rnd
      \<and> frozenIds (step s (SelectNumDice n) rnd) = {}
      \<and> currentRoll (step s (SelectNumDice n) rnd) = 0)
   \<and> step s ToggleLimit rnd = startNewGame (s\<lparr>limitEnabled := \<not> limitEnabled s\<rparr>) rnd
   \<and> frozenIds (step s ToggleLimit rnd) = {}
   \<and> currentRoll (step s ToggleLimit rnd) = 0
   \<and> (v \<noteq> maxRollsSelection s \<longrightarrow>
      step s (SelectMaxRolls v) rnd = startNewGame (s\<lparr>maxRollsSelection := v\<rparr>) rnd
      \<and> frozenIds (step s (SelectMaxRolls v) rnd) = {}
      \<and> currentRoll (step s (SelectMaxRolls v) rnd) = 0)
   \<and> (c \<noteq> customMaxRolls s \<longrightarrow>
      step s (InputCustomMax c) rnd = startNewGame (s\<lparr>customMaxRolls := c\<rparr>) rnd
      \<and> frozenIds (step s (InputCustomMax c) rnd) = {}
      \<and> currentRoll (step s (InputCustomMax c) rnd) = 0)"
  by (simp add: step_def deps_def startNewGame_fields)

theorem option_change_resets_witness:
  "frozenIds (step midGame (SelectNumDice 3) zeroRandom) = {}
   \<and> currentRoll (step midGame (SelectNumDice 3) zeroRandom) = 0
   \<and> frozenIds (step midGame ToggleLimit zeroRandom) = {}
   \<and> currentRoll (step midGame ToggleLimit zeroRandom) = 0
   \<and> frozenIds (step midGame (SelectMaxRolls ''other'') zeroRandom) = {}
   \<and> currentRoll (step midGame (SelectMaxRolls ''other'') zeroRandom) = 0
   \<and> frozenIds (step midGame (InputCustomMax (numberOfInt 7)) zeroRandom) = {}
   \<and> currentRoll (step midGame (InputCustomMax (numberOfInt 7)) zeroRandom) = 0
   \<and> frozenIds midGame = {1} \<and> currentRoll midGame = 2"
proof -
  have n: "3 \<noteq> numDice midGame" by (simp add: midGame_def initialState_def)
  have v: "''other'' \<noteq> maxRollsSelection midGame" by (simp add: midGame_def initialState_def)
  have c: "numberOfInt 7 \<noteq> customMaxRolls midGame"
    by (simp add: midGame_def initialState_def numberOfInt_samples)
  have m: "frozenIds midGame = {1} \<and> currentRoll midGame = 2"
    by (simp add: midGame_def initialState_def)
  from n v c m option_change_resets [of 3 midGame zeroRandom "''other''" "numberOfInt 7"]
  show ?thesis by blast
qed

text \<open>
  Claim C10.  Selecting a theme and opening or closing the options panel change that one
  state variable: no dependency of the effect changes, no new game starts, and the dice,
  the frozen set, the roll counter, the roll limit and the score stay as they are.
\<close>

theorem theme_is_presentation:
  "step s (SelectTheme t) rnd = s\<lparr>theme := t\<rparr>
   \<and> step s ToggleOptions rnd = s\<lparr>showOptions := \<not> showOptions s\<rparr>
   \<and> dice (step s (SelectTheme t) rnd) = dice s
   \<and> frozenIds (step s (SelectTheme t) rnd) = frozenIds s
   \<and> currentRoll (step s (SelectTheme t) rnd) = currentRoll s
   \<and> maxRolls (step s (SelectTheme t) rnd) = maxRolls s
   \<and> score (step s (SelectTheme t) rnd) = score s
   \<and> dice (step s ToggleOptions rnd) = dice s
   \<and> frozenIds (step s ToggleOptions rnd) = frozenIds s
   \<and> currentRoll (step s ToggleOptions rnd) = currentRoll s
   \<and> maxRolls (step s ToggleOptions rnd) = maxRolls s
   \<and> score (step s ToggleOptions rnd) = score s"
  by (simp add: step_def deps_def)

section \<open>Parsing the roll limit\<close>

text \<open>
  What \<^verbatim>\<open>parseInt\<close> reads from the string of a number: the integer part when the number
  is printed in plain notation, and the leading digit when it is printed in exponent
  notation (\<open>1e21\<close> parses to \<open>1\<close>, \<open>5e-7\<close> to \<open>5\<close>); the names of the special values
  hold no digit.
\<close>

lemma of_char_digitChar: "d < 10 \<Longrightarrow> (of_char (digitChar d) :: nat) = 48 + d"
  by (simp add: digitChar_def)

lemma digitValue_digitChar: "d < 10 \<Longrightarrow> digitValue 10 (digitChar d) = Some d"
  by (simp add: digitValue_def of_char_digitChar)

lemma natDigits_chars: "c \<in> set (natDigits n) \<Longrightarrow> \<exists>d<10. c = digitChar d"
proof (induction n rule: natDigits.induct)
  case (1 n)
  show ?case
  proof (cases "n < 10")
    case True
    with "1.prems" show ?thesis by (auto simp add: natDigits.simps [of n])
  next
    case False
    with "1.prems" have "c \<in> set (natDigits (n div 10)) \<or> c = digitChar (n mod 10)"
      by (auto simp add: natDigits.simps [of n])
    then show ?thesis
    proof
      assume "c \<in> set (natDigits (n div 10))"
      with "1.IH" False show ?thesis by simp
    next
      assume "c = digitChar (n mod 10)"
      moreover have "n mod 10 < 10" by simp
      ultimately show ?thesis by blast
    qed
  qed
qed

lemma natDigits_nonempty: "natDigits n \<noteq> []"
  by (subst natDigits.simps) simp

lemma digitsValue_snoc:
  "digitsValue r (ds @ [c]) = digitsValue r ds * r + the (digitValue r c)"
  by (simp add: digitsValue_def)

lemma digitsValue_natDigits: "digitsValue 10 (natDigits n) = n"
proof (induction n rule: natDigits.induct)
  case (1 n)
  show ?case
  proof (cases "n < 10")
    case True
    then show ?thesis
      by (simp add: natDigits.simps [of n] digitsValue_def digitValue_digitChar)
  next
    case False
    with "1.IH" have "digitsValue 10 (natDigits (n div 10)) = n div 10" by simp
    with False show ?thesis
      by (simp add: natDigits.simps [of n] digitsValue_snoc digitValue_digitChar)
  qed
qed

lemma digitChar_plain:
  assumes "d < 10"
  shows "\<not> isWhiteSpace (digitChar d)" and "digitChar d \<noteq> CHR ''-''" and "digitChar d \<noteq> CHR ''+''"
    and "digitChar d \<noteq> CHR ''x''" and "digitChar d \<noteq> CHR ''X''"
proof -
  have k: "(of_char (digitChar d) :: nat) = 48 + d" using assms by (rule of_char_digitChar)
  show "\<not> isWhiteSpace (digitChar d)" using assms by (simp add: isWhiteSpace_def k)
  have "(of_char (digitChar d) :: nat) \<noteq> of_char CHR ''-''" using assms by (simp add: k)
  then show "digitChar d \<noteq> CHR ''-''" by auto
  have "(of_char (digitChar d) :: nat) \<noteq> of_char CHR ''+''" using assms by (simp add: k)
  then show "digitChar d \<noteq> CHR ''+''" by auto
  have "(of_char (digitChar d) :: nat) \<noteq> of_char CHR ''x''" using assms by (simp add: k)
  then show "digitChar d \<noteq> CHR ''x''" by auto
  have "(of_char (digitChar d) :: nat) \<noteq> of_char CHR ''X''" using assms by (simp add: k)
  then show "digitChar d \<noteq> CHR ''X''" by auto
qed

lemma take2_second: "take 2 xs = [a, b] \<Longrightarrow> b \<in> set xs"
proof -
  assume h: "take 2 xs = [a, b]"
  have "b \<in> set [a, b]" by simp
  then have "b \<in> set (take 2 xs)" by (simp only: h)
  then show ?thesis by (rule in_set_takeD)
qed

lemma natDigits_no_hex: "take 2 (natDigits n) \<noteq> ''0x''" "take 2 (natDigits n) \<noteq> ''0X''"
proof -
  show "take 2 (natDigits n) \<noteq> ''0x''"
  proof
    assume "take 2 (natDigits n) = ''0x''"
    then have "CHR ''x'' \<in> set (natDigits n)" by (rule take2_second)
    then obtain d where "d < 10" "CHR ''x'' = digitChar d"
      using natDigits_chars by blast
    then show False using digitChar_plain(4) [of d] by simp
  qed
  show "take 2 (natDigits n) \<noteq> ''0X''"
  proof
    assume "take 2 (natDigits n) = ''0X''"
    then have "CHR ''X'' \<in> set (natDigits n)" by (rule take2_second)
    then obtain d where "d < 10" "CHR ''X'' = digitChar d"
      using natDigits_chars by blast
    then show False using digitChar_plain(5) [of d] by simp
  qed
qed

lemma natDigits_hd:
  "\<not> isWhiteSpace (hd (natDigits n))" "hd (natDigits n) \<noteq> CHR ''-''" "hd (natDigits n) \<noteq> CHR ''+''"
proof -
  have "hd (natDigits n) \<in> set (natDigits n)" by (simp add: natDigits_nonempty)
  then obtain d where d: "d < 10" "hd (natDigits n) = digitChar d"
    using natDigits_chars by blast
  then show "\<not> isWhiteSpace (hd (natDigits n))" "hd (natDigits n) \<noteq> CHR ''-''"
    "hd (natDigits n) \<noteq> CHR ''+''"
    by (simp_all add: digitChar_plain)
qed

lemma dropWhile_hd: "xs \<noteq> [] \<Longrightarrow> \<not> P (hd xs) \<Longrightarrow> dropWhile P xs = xs"
  by (cases xs) simp_all

lemma takeWhile_prefix:
  assumes "\<forall>c\<in>set ds. P c" and "rest = [] \<or> \<not> P (hd rest)"
  shows "takeWhile P (ds @ rest) = ds"
proof -
  have "takeWhile P (ds @ rest) = ds @ takeWhile P rest"
    using assms(1) by (simp add: takeWhile_append2)
  moreover have "takeWhile P rest = []"
    using assms(2) by (cases rest) auto
  ultimately show ?thesis by simp
qed

lemma take2_append_digits:
  assumes "ds \<noteq> []" and "\<forall>c\<in>set ds. c \<noteq> x"
    and "rest = [] \<or> hd rest \<noteq> x"
  shows "take 2 (ds @ rest) \<noteq> [a, x]"
proof
  assume h: "take 2 (ds @ rest) = [a, x]"
  show False
  proof (cases ds)
    case Nil
    with assms(1) show False by simp
  next
    case (Cons c cs)
    show False
    proof (cases cs)
      case Nil
      with Cons h assms(3) show False by (cases rest) auto
    next
      case (Cons c' cs')
      with \<open>ds = c # cs\<close> h have "c' = x" by simp
      with Cons \<open>ds = c # cs\<close> assms(2) show False by simp
    qed
  qed
qed

text \<open>
  A string that starts with decimal digits and goes on, if at all, with a point or an
  \<open>e\<close> parses to the value of those digits.
\<close>

lemma parseIntString_prefix:
  assumes "ds \<noteq> []" and "\<forall>c\<in>set ds. \<exists>d<10. c = digitChar d"
    and "rest = [] \<or> hd rest = CHR ''.'' \<or> hd rest = CHR ''e''"
  shows "parseIntString (ds @ rest) = Fin (int (digitsValue 10 ds))"
    and "parseIntString (CHR ''-'' # ds @ rest) = Fin (- int (digitsValue 10 ds))"
proof -
  have dig: "\<forall>c\<in>set ds. digitValue 10 c \<noteq> None"
  proof
    fix c assume "c \<in> set ds"
    with assms(2) obtain d where "d < 10" "c = digitChar d" by blast
    then show "digitValue 10 c \<noteq> None" by (simp add: digitValue_digitChar)
  qed
  have nd: "digitValue 10 CHR ''.'' = None" "digitValue 10 CHR ''e'' = None"
    by (simp_all add: digitValue_def)
  have stop: "rest = [] \<or> \<not> digitValue 10 (hd rest) \<noteq> None"
    using assms(3) nd by auto
  have tw: "takeWhile (\<lambda>c. digitValue 10 c \<noteq> None) (ds @ rest) = ds"
    using dig stop by (rule takeWhile_prefix)
  have "hd ds \<in> set ds" using assms(1) by simp
  then obtain d where d: "d < 10" "hd ds = digitChar d" using assms(2) by blast
  have hdp: "\<not> isWhiteSpace (hd ds)" "hd ds \<noteq> CHR ''-''" "hd ds \<noteq> CHR ''+''"
    using d by (simp_all add: digitChar_plain)
  have nox: "\<forall>c\<in>set ds. c \<noteq> CHR ''x''"
  proof
    fix c assume "c \<in> set ds"
    with assms(2) obtain d where "d < 10" "c = digitChar d" by blast
    then show "c \<noteq> CHR ''x''" by (simp add: digitChar_plain(4))
  qed
  have noX: "\<forall>c\<in>set ds. c \<noteq> CHR ''X''"
  proof
    fix c assume "c \<in> set ds"
    with assms(2) obtain d where "d < 10" "c = digitChar d" by blast
    then show "c \<noteq> CHR ''X''" by (simp add: digitChar_plain(5))
  qed
  have rx: "rest = [] \<or> hd rest \<noteq> CHR ''x''" and rX: "rest = [] \<or> hd rest \<noteq> CHR ''X''"
    using assms(3) by auto
  have hex: "take 2 (ds @ rest) \<noteq> ''0x''" "take 2 (ds @ rest) \<noteq> ''0X''"
    by (rule take2_append_digits [OF assms(1) nox rx], rule take2_append_digits [OF assms(1) noX rX])
  have ne: "ds @ rest \<noteq> []" using assms(1) by simp
  have hda: "hd (ds @ rest) = hd ds" using assms(1) by simp
  have dw: "dropWhile isWhiteSpace (ds @ rest) = ds @ rest"
    using ne hdp(1) hda by (intro dropWhile_hd) simp_all
  show "parseIntString (ds @ rest) = Fin (int (digitsValue 10 ds))"
    unfolding parseIntString_def Let_def dw
    using assms(1) hdp hda hex ne by (simp add: tw del: not_None_eq)
  have nw: "\<not> isWhiteSpace CHR ''-''" by (simp add: isWhiteSpace_def)
  have dw': "dropWhile isWhiteSpace (CHR ''-'' # ds @ rest) = CHR ''-'' # ds @ rest"
    using nw by simp
  show "parseIntString (CHR ''-'' # ds @ rest) = Fin (- int (digitsValue 10 ds))"
    unfolding parseIntString_def Let_def dw'
    using assms(1) hex by (simp add: tw del: not_None_eq)
qed

lemma parseIntString_cases: "parseIntString str = NaN \<or> (\<exists>p. parseIntString str = Fin p)"
  by (simp add: parseIntString_def Let_def)

lemma natDigits_unfold:
  "n < 10 \<Longrightarrow> natDigits n = [digitChar n]"
  "\<not> n < 10 \<Longrightarrow> natDigits n = natDigits (n div 10) @ [digitChar (n mod 10)]"
  by (simp_all add: natDigits.simps [of n])

lemma natDigits_upper: "n < 10 ^ length (natDigits n)"
proof (induction n rule: natDigits.induct)
  case (1 n)
  show ?case
  proof (cases "n < 10")
    case True
    then show ?thesis by (simp add: natDigits_unfold)
  next
    case False
    with "1.IH" have "n div 10 < 10 ^ length (natDigits (n div 10))" by simp
    then have "n < 10 * 10 ^ length (natDigits (n div 10))" by simp
    with False show ?thesis by (simp add: natDigits_unfold)
  qed
qed

lemma natDigits_lower: "0 < n \<Longrightarrow> 10 ^ (length (natDigits n) - 1) \<le> n"
proof (induction n rule: natDigits.induct)
  case (1 n)
  show ?case
  proof (cases "n < 10")
    case True
    with "1.prems" show ?thesis by (simp add: natDigits_unfold)
  next
    case False
    then have "0 < n div 10" by simp
    with "1.IH" False have "10 ^ (length (natDigits (n div 10)) - 1) \<le> n div 10" by simp
    then have "10 * 10 ^ (length (natDigits (n div 10)) - 1) \<le> n" by simp
    moreover have "length (natDigits (n div 10)) \<noteq> 0" by (simp add: natDigits_nonempty)
    ultimately have "10 ^ length (natDigits (n div 10)) \<le> n"
      by (cases "length (natDigits (n div 10))") simp_all
    with False show ?thesis by (simp add: natDigits_unfold)
  qed
qed

lemma digitsValue_take:
  "j \<le> length (natDigits n) \<Longrightarrow>
     digitsValue 10 (take j (natDigits n)) = n div 10 ^ (length (natDigits n) - j)"
proof (induction n arbitrary: j rule: natDigits.induct)
  case (1 n)
  show ?case
  proof (cases "n < 10")
    case True
    then have nd: "natDigits n = [digitChar n]" by (simp add: natDigits_unfold)
    from "1.prems" nd have "j = 0 \<or> j = 1" by auto
    then show ?thesis
    proof
      assume "j = 0"
      with True nd show ?thesis by (simp add: digitsValue_def)
    next
      assume "j = 1"
      with True nd show ?thesis by (simp add: digitsValue_def digitValue_digitChar)
    qed
  next
    case False
    define xs where "xs = natDigits (n div 10)"
    have nd: "natDigits n = xs @ [digitChar (n mod 10)]"
      using False by (simp add: natDigits_unfold xs_def)
    show ?thesis
    proof (cases "j \<le> length xs")
      case True
      then have "digitsValue 10 (take j xs) = (n div 10) div 10 ^ (length xs - j)"
        unfolding xs_def using False by (intro "1.IH") simp_all
      also have "\<dots> = n div (10 * 10 ^ (length xs - j))"
        by (simp add: div_mult2_eq)
      also have "10 * (10::nat) ^ (length xs - j) = 10 ^ (Suc (length xs) - j)"
        using True by (simp add: Suc_diff_le)
      finally show ?thesis using True by (simp add: nd)
    next
      case False
      with "1.prems" nd have j: "j = Suc (length xs)" by simp
      have "digitsValue 10 xs = n div 10"
        using digitsValue_natDigits [of "n div 10"] by (simp add: xs_def)
      then have "digitsValue 10 (xs @ [digitChar (n mod 10)]) = n"
        by (simp add: digitsValue_snoc digitValue_digitChar)
      then show ?thesis by (simp add: nd j)
    qed
  qed
qed

lemma digitsValue_zeros:
  "digitsValue 10 (ds @ replicate z (digitChar 0)) = digitsValue 10 ds * 10 ^ z"
proof (induction z)
  case 0
  then show ?case by simp
next
  case (Suc z)
  have "ds @ replicate (Suc z) (digitChar 0) = (ds @ replicate z (digitChar 0)) @ [digitChar 0]"
    by (simp add: replicate_append_same)
  then show ?case
    using Suc by (simp only: digitsValue_snoc) (simp add: digitValue_digitChar)
qed

lemma digitChar_0: "digitChar 0 = CHR ''0''"
proof -
  have "(of_char (digitChar 0) :: nat) = of_char CHR ''0''"
    by (simp add: of_char_digitChar)
  then show ?thesis by (simp only: of_char_eq_iff)
qed

lemma natDigits_digits: "\<forall>c\<in>set (natDigits n). \<exists>d<10. c = digitChar d"
  using natDigits_chars by blast

lemma parseIntString_signed:
  assumes "ds \<noteq> []" and "\<forall>c\<in>set ds. \<exists>d<10. c = digitChar d"
    and "rest = [] \<or> hd rest = CHR ''.'' \<or> hd rest = CHR ''e''"
  shows "parseIntString ((if neg then ''-'' else []) @ ds @ rest) =
           Fin ((if neg then - 1 else 1) * int (digitsValue 10 ds))"
  using parseIntString_prefix [OF assms] by simp

lemma decimalString_split:
  assumes "0 < s"
  shows "\<exists>ds rest. decimalString s e = ds @ rest \<and> ds \<noteq> []
           \<and> (\<forall>c\<in>set ds. \<exists>d<10. c = digitChar d)
           \<and> (rest = [] \<or> hd rest = CHR ''.'' \<or> hd rest = CHR ''e'')
           \<and> digitsValue 10 ds =
               (if - 5 \<le> int (length (natDigits s)) + e \<and> int (length (natDigits s)) + e \<le> 21
                then integerPart s e else s div 10 ^ (length (natDigits s) - 1))"
proof -
  define xs where "xs = natDigits s"
  define k where "k = length xs"
  define n where "n = int k + e"
  have xne: "xs \<noteq> []" by (simp add: xs_def natDigits_nonempty)
  have k1: "1 \<le> k" using xne by (cases xs) (simp_all add: k_def)
  have xd: "\<forall>c\<in>set xs. \<exists>d<10. c = digitChar d" unfolding xs_def by (rule natDigits_digits)
  have val: "digitsValue 10 (take j xs) = s div 10 ^ (k - j)" if "j \<le> k" for j
    using that unfolding xs_def k_def by (rule digitsValue_take)
  have whole: "digitsValue 10 xs = s" unfolding xs_def by (rule digitsValue_natDigits)
  have up: "s < 10 ^ k" unfolding xs_def k_def by (rule natDigits_upper)
  have ds: "decimalString s e =
      (if - 5 \<le> n \<and> n \<le> 21 then
           (if int k \<le> n then xs @ replicate (nat (n - int k)) CHR ''0''
            else if 0 < n then take (nat n) xs @ ''.'' @ drop (nat n) xs
            else ''0.'' @ replicate (nat (- n)) CHR ''0'' @ xs)
         else
           (if int k = 1 then xs @ ''e'' @
                ((if n - 1 < 0 then CHR ''-'' else CHR ''+'') # natDigits (nat \<bar>n - 1\<bar>))
            else hd xs # ''.'' @ tl xs @ ''e'' @
                ((if n - 1 < 0 then CHR ''-'' else CHR ''+'') # natDigits (nat \<bar>n - 1\<bar>))))"
    by (simp add: decimalString_def Let_def xs_def k_def n_def)
  consider (a) "- 5 \<le> n" "n \<le> 21" "int k \<le> n"
    | (b) "- 5 \<le> n" "n \<le> 21" "n < int k" "0 < n"
    | (c) "- 5 \<le> n" "n \<le> 21" "n \<le> 0"
    | (d) "\<not> (- 5 \<le> n \<and> n \<le> 21)" "k = 1"
    | (e) "\<not> (- 5 \<le> n \<and> n \<le> 21)" "k \<noteq> 1"
    using k1 by linarith
  note split = this
  let ?G = "\<lambda>ds rest. decimalString s e = ds @ rest \<and> ds \<noteq> []
           \<and> (\<forall>c\<in>set ds. \<exists>d<10. c = digitChar d)
           \<and> (rest = [] \<or> hd rest = CHR ''.'' \<or> hd rest = CHR ''e'')
           \<and> digitsValue 10 ds =
               (if - 5 \<le> n \<and> n \<le> 21 then integerPart s e else s div 10 ^ (k - 1))"
  from split have "\<exists>ds rest. ?G ds rest"
  proof cases
    case a
    then have e0: "0 \<le> e" and ne: "nat (n - int k) = nat e" by (simp_all add: n_def)
    define zs where "zs = xs @ replicate (nat e) (digitChar 0)"
    have 1: "decimalString s e = zs @ []"
      using a by (simp add: ds ne zs_def digitChar_0)
    have 2: "zs \<noteq> []" using xne by (simp add: zs_def)
    have z0: "\<exists>d<10. digitChar 0 = digitChar d" by (intro exI [of _ 0]) simp
    have 3: "\<forall>c\<in>set zs. \<exists>d<10. c = digitChar d"
      using xd z0 by (auto simp add: zs_def)
    have 4: "digitsValue 10 zs = integerPart s e"
      using e0 by (simp add: zs_def digitsValue_zeros whole integerPart_def)
    from 1 2 3 4 a have "?G zs []" by simp
    then show ?thesis by blast
  next
    case b
    define j where "j = nat n"
    have j: "1 \<le> j" "j < k" using b by (simp_all add: j_def)
    have en: "e < 0" "nat (- e) = k - j" using b by (simp_all add: n_def j_def)
    have 1: "decimalString s e = take j xs @ (CHR ''.'' # drop j xs)"
      using b by (simp add: ds j_def)
    have 2: "take j xs \<noteq> []" using j xne by (cases xs) (simp_all add: take_Cons')
    have 3: "\<forall>c\<in>set (take j xs). \<exists>d<10. c = digitChar d"
      using xd by (meson in_set_takeD)
    have 4: "digitsValue 10 (take j xs) = integerPart s e"
      using j en by (simp add: val integerPart_def)
    from 1 2 3 4 b have "?G (take j xs) (CHR ''.'' # drop j xs)" by simp
    then show ?thesis by blast
  next
    case c
    then have en: "e < 0" "k \<le> nat (- e)" using k1 by (simp_all add: n_def)
    have 1: "decimalString s e = [digitChar 0] @ (CHR ''.'' # replicate (nat (- n)) CHR ''0'' @ xs)"
      using c k1 by (simp add: ds digitChar_0)
    have pw: "(10::nat) ^ k \<le> 10 ^ nat (- e)" using en(2) by (simp add: power_increasing)
    have "s < 10 ^ nat (- e)" using up pw by (rule less_le_trans)
    then have 4: "digitsValue 10 [digitChar 0] = integerPart s e"
      using en(1) by (simp add: integerPart_def digitsValue_def digitValue_digitChar)
    have "\<exists>d<10. digitChar 0 = digitChar d" by (intro exI [of _ 0]) simp
    then have 3: "\<forall>c\<in>set [digitChar 0]. \<exists>d<10. c = digitChar d" by simp
    from 1 3 4 c have "?G [digitChar 0] (CHR ''.'' # replicate (nat (- n)) CHR ''0'' @ xs)"
      by simp
    then show ?thesis by blast
  next
    case d
    have nr: "(- 5 \<le> n \<and> n \<le> 21) = False" using d(1) by simp
    have kk: "(int k = 1) = True" using d(2) by simp
    have 1: "decimalString s e = xs @ (CHR ''e'' #
        ((if n - 1 < 0 then CHR ''-'' else CHR ''+'') # natDigits (nat \<bar>n - 1\<bar>)))"
      by (simp only: ds nr kk if_False if_True) simp
    have 4: "digitsValue 10 xs = s div 10 ^ (k - 1)" using d by (simp add: whole)
    from 1 xne xd 4 have "?G xs (CHR ''e'' #
        ((if n - 1 < 0 then CHR ''-'' else CHR ''+'') # natDigits (nat \<bar>n - 1\<bar>)))"
      by (simp only: nr if_False) simp
    then show ?thesis by blast
  next
    case e
    have t1: "take 1 xs = [hd xs]" using xne by (cases xs) simp_all
    have nr: "(- 5 \<le> n \<and> n \<le> 21) = False" using e(1) by simp
    have kk: "(int k = 1) = False" using e(2) by simp
    have 1: "decimalString s e = [hd xs] @ (CHR ''.'' # tl xs @ ''e'' @
        ((if n - 1 < 0 then CHR ''-'' else CHR ''+'') # natDigits (nat \<bar>n - 1\<bar>)))"
      by (simp only: ds nr kk if_False if_True) simp
    have "hd xs \<in> set xs" using xne by simp
    with xd have 3: "\<forall>c\<in>set [hd xs]. \<exists>d<10. c = digitChar d" by simp
    have 4: "digitsValue 10 [hd xs] = s div 10 ^ (k - 1)"
      using val [of 1] k1 t1 by simp
    from 1 3 4 have "?G [hd xs] (CHR ''.'' # tl xs @ ''e'' @
        ((if n - 1 < 0 then CHR ''-'' else CHR ''+'') # natDigits (nat \<bar>n - 1\<bar>)))"
      by (simp only: nr if_False) simp
    then show ?thesis by blast
  qed
  then show ?thesis unfolding n_def k_def xs_def .
qed

lemma parseInt_Decimal:
  "parseInt (Decimal neg q d e) =
     Fin ((if neg then - 1 else 1) *
          int (if - 5 \<le> int (length (natDigits (10 * q + nzdigitValue d))) + e
                  \<and> int (length (natDigits (10 * q + nzdigitValue d))) + e \<le> 21
               then integerPart (10 * q + nzdigitValue d) e
               else (10 * q + nzdigitValue d)
                      div 10 ^ (length (natDigits (10 * q + nzdigitValue d)) - 1)))"
proof -
  have "0 < 10 * q + nzdigitValue d" by (cases d) simp_all
  from decimalString_split [OF this, of e] obtain ds rest where
    s: "decimalString (10 * q + nzdigitValue d) e = ds @ rest" "ds \<noteq> []"
      "\<forall>c\<in>set ds. \<exists>d<10. c = digitChar d"
      "rest = [] \<or> hd rest = CHR ''.'' \<or> hd rest = CHR ''e''"
      "digitsValue 10 ds =
               (if - 5 \<le> int (length (natDigits (10 * q + nzdigitValue d))) + e
                  \<and> int (length (natDigits (10 * q + nzdigitValue d))) + e \<le> 21
                then integerPart (10 * q + nzdigitValue d) e
                else (10 * q + nzdigitValue d)
                      div 10 ^ (length (natDigits (10 * q + nzdigitValue d)) - 1))"
    by blast
  have "parseInt (Decimal neg q d e) = parseIntString ((if neg then ''-'' else []) @ ds @ rest)"
    by (simp add: parseInt_def s(1))
  also have "\<dots> = Fin ((if neg then - 1 else 1) * int (digitsValue 10 ds))"
    using s(2,3,4) by (rule parseIntString_signed)
  finally show ?thesis by (simp only: s(5))
qed

lemma parseInt_special:
  "parseInt (Zero z) = Fin 0" "parseInt NotANumber = NaN"
  "parseInt PlusInfinity = NaN" "parseInt MinusInfinity = NaN"
  by (simp_all add: parseInt_def parseIntString_def isWhiteSpace_def digitValue_def
      digitsValue_def Let_def)

lemma stripZeros_spec:
  assumes "0 < n" and "stripZeros n e = (m, e')"
  shows "e \<le> e' \<and> m * 10 ^ (e' - e) = n \<and> m mod 10 \<noteq> 0 \<and> 0 < m"
  using assms
proof (induction n e rule: stripZeros.induct)
  case (1 n e)
  show ?case
  proof (cases "n mod 10 = 0")
    case True
    with "1.prems"(1) have pos: "0 < n div 10" by presburger
    from True "1.prems" have "stripZeros (n div 10) (e + 1) = (m, e')"
      by (simp add: stripZeros.simps [of n e])
    with "1.IH" True "1.prems"(1) pos
    have ih: "e + 1 \<le> e' \<and> m * 10 ^ (e' - (e + 1)) = n div 10 \<and> m mod 10 \<noteq> 0 \<and> 0 < m"
      by simp
    then have "e + 1 \<le> e'" by blast
    then have "e' - e = Suc (e' - (e + 1))" by linarith
    then have "m * 10 ^ (e' - e) = 10 * (m * 10 ^ (e' - (e + 1)))" by simp
    also have "\<dots> = 10 * (n div 10)" using ih by simp
    also have "\<dots> = n" using True by presburger
    finally show ?thesis using ih by simp
  next
    case False
    with "1.prems" have "m = n" "e' = e" by (simp_all add: stripZeros.simps [of n e])
    with False "1.prems"(1) show ?thesis by simp
  qed
qed

lemma nzdigit_roundtrip: "1 \<le> d \<Longrightarrow> d \<le> 9 \<Longrightarrow> nzdigitValue (nzdigitOf d) = d"
  by (simp add: nzdigitOf_def)

text \<open>An integer below \<open>10^21\<close> in magnitude is printed in full and read back.\<close>

lemma parseInt_numberOfInt:
  assumes "\<bar>n\<bar> < 10 ^ 21"
  shows "parseInt (numberOfInt n) = Fin n"
proof (cases "n = 0")
  case True
  then show ?thesis by (simp add: numberOfInt_def parseInt_special)
next
  case False
  obtain m e where st: "stripZeros (nat \<bar>n\<bar>) 0 = (m, e)"
    by (cases "stripZeros (nat \<bar>n\<bar>) 0")
  have "0 < nat \<bar>n\<bar>" using False by simp
  from stripZeros_spec [OF this st]
  have sp: "m * 10 ^ e = nat \<bar>n\<bar>" "m mod 10 \<noteq> 0" "0 < m" by simp_all
  have "1 \<le> m mod 10" "m mod 10 \<le> 9" using sp(2) by presburger+
  then have "nzdigitValue (nzdigitOf (m mod 10)) = m mod 10" by (rule nzdigit_roundtrip)
  then have sig: "10 * (m div 10) + nzdigitValue (nzdigitOf (m mod 10)) = m" by simp
  define k where "k = length (natDigits m)"
  have k1: "1 \<le> k" using natDigits_nonempty [of m] by (cases "natDigits m") (simp_all add: k_def)
  have "(10::nat) ^ (k - 1) \<le> m" unfolding k_def using sp(3) by (rule natDigits_lower)
  then have "(10::nat) ^ (k - 1) * 10 ^ e \<le> m * 10 ^ e" by simp
  then have "(10::nat) ^ (k - 1 + e) \<le> nat \<bar>n\<bar>" by (simp add: sp(1) power_add)
  moreover have "nat \<bar>n\<bar> < 10 ^ 21" using assms by (simp add: nat_less_iff)
  ultimately have "(10::nat) ^ (k - 1 + e) < 10 ^ 21" by (rule le_less_trans)
  then have "k - 1 + e < 21" by (simp only: power_strict_increasing_iff)
  with k1 have rng: "- 5 \<le> int k + int e" "int k + int e \<le> 21" by simp_all
  have ip: "integerPart m (int e) = nat \<bar>n\<bar>" by (simp add: integerPart_def sp(1))
  have "numberOfInt n = Decimal (n < 0) (m div 10) (nzdigitOf (m mod 10)) (int e)"
    using False by (simp add: numberOfInt_def st)
  then have "parseInt (numberOfInt n) = Fin ((if n < 0 then - 1 else 1) * int (nat \<bar>n\<bar>))"
    using rng by (simp only: parseInt_Decimal sig k_def [symmetric] ip) simp
  then show ?thesis by (simp split: if_splits)
qed

lemma startNewGame_maxRolls_eq:
  "maxRolls (startNewGame s rnd) =
     (if limitEnabled s then
        (if maxRollsSelection s = ''other''
         then js_or (parseInt (customMaxRolls s)) (Fin 10)
         else parseIntString (maxRollsSelection s))
      else Infinity)"
  by (simp add: startNewGame_def calculateScore_def Let_def)

lemma parseIntString_3: "parseIntString ''3'' = Fin 3"
  by (simp add: parseIntString_def isWhiteSpace_def digitValue_def digitsValue_def Let_def)

lemma parse_samples:
  "parseInt (Decimal False 2 D5 (- 1)) = Fin 2"
  "parseInt (Decimal False 0 D5 (- 1)) = Fin 0"
  "parseInt (Decimal True 0 D5 (- 1)) = Fin 0"
  "parseInt (Decimal False 0 D1 21) = Fin 1"
  "parseInt (Decimal False 0 D5 (- 7)) = Fin 5"
  "parseInt (Decimal True 2 D5 (- 1)) = Fin (- 2)"
  by (simp_all add: parseInt_Decimal integerPart_def natDigits_unfold)

text \<open>
  Claim C3, amended.  \<^verbatim>\<open>startNewGame\<close> sets the roll limit to: unbounded when the limit
  is disabled; \<open>3\<close> when it is enabled and the selection is \<^verbatim>\<open>"3"\<close>; and, when the
  selection is \<^verbatim>\<open>"other"\<close>, to the parsed custom maximum when that is positive and to
  \<open>10\<close> when the parsed value is \<open>0\<close> or the parse fails.  The parsed value is
  \<^verbatim>\<open>parseInt(customMaxRolls)\<close> for every number the field can hold, fractions, \<open>-0\<close> and
  numbers printed in exponent notation included.  The selection is one of its two
  options when the limit is enabled, and nothing is said of a negative parsed value.
\<close>

theorem startNewGame_maxRolls:
  assumes "limitEnabled s \<longrightarrow> maxRollsSelection s = ''3'' \<or> maxRollsSelection s = ''other''"
    and "limitEnabled s \<and> maxRollsSelection s = ''other'' \<longrightarrow>
           (\<forall>p. parseInt (customMaxRolls s) = Fin p \<longrightarrow> 0 \<le> p)"
  shows "maxRolls (startNewGame s rnd) =
     (if \<not> limitEnabled s then Infinity
      else if maxRollsSelection s = ''3'' then Fin 3
      else (case parseInt (customMaxRolls s) of
              Fin p \<Rightarrow> if p = 0 then Fin 10 else Fin p
            | _ \<Rightarrow> Fin 10))"
proof (cases "limitEnabled s")
  case False
  then show ?thesis by (simp add: startNewGame_maxRolls_eq)
next
  case True
  with assms(1) have "maxRollsSelection s = ''3'' \<or> maxRollsSelection s = ''other''"
    by simp
  then show ?thesis
  proof
    assume "maxRollsSelection s = ''3''"
    with True show ?thesis by (simp add: startNewGame_maxRolls_eq parseIntString_3)
  next
    assume o: "maxRollsSelection s = ''other''"
    have "parseInt (customMaxRolls s) = NaN \<or> (\<exists>p. parseInt (customMaxRolls s) = Fin p)"
      unfolding parseInt_def by (rule parseIntString_cases)
    then show ?thesis
    proof
      assume "parseInt (customMaxRolls s) = NaN"
      with True o show ?thesis by (simp add: startNewGame_maxRolls_eq js_or_def)
    next
      assume "\<exists>p. parseInt (customMaxRolls s) = Fin p"
      then obtain p where "parseInt (customMaxRolls s) = Fin p" ..
      with True o show ?thesis by (simp add: startNewGame_maxRolls_eq js_or_def)
    qed
  qed
qed

theorem startNewGame_maxRolls_witness:
  "maxRolls (startNewGame (customLimit (numberOfInt 7)) zeroRandom) = Fin 7
   \<and> maxRolls (startNewGame (customLimit (Decimal False 2 D5 (- 1))) zeroRandom) = Fin 2
   \<and> maxRolls (startNewGame (customLimit (Decimal False 0 D1 21)) zeroRandom) = Fin 1
   \<and> maxRolls (startNewGame (customLimit (Decimal False 0 D5 (- 7))) zeroRandom) = Fin 5
   \<and> maxRolls (startNewGame (customLimit (Decimal False 0 D5 (- 1))) zeroRandom) = Fin 10
   \<and> maxRolls (startNewGame (customLimit (Decimal True 0 D5 (- 1))) zeroRandom) = Fin 10
   \<and> maxRolls (startNewGame (customLimit (Zero False)) zeroRandom) = Fin 10
   \<and> maxRolls (startNewGame (customLimit (Zero True)) zeroRandom) = Fin 10
   \<and> maxRolls (startNewGame (customLimit NotANumber) zeroRandom) = Fin 10
   \<and> maxRolls (startNewGame (customLimit PlusInfinity) zeroRandom) = Fin 10
   \<and> maxRolls (startNewGame (customLimit (numberOfInt (- 5))\<lparr>maxRollsSelection := ''3''\<rparr>) zeroRandom) = Fin 3
   \<and> maxRolls (startNewGame (initialState\<lparr>customMaxRolls := numberOfInt (- 5)\<rparr>) zeroRandom) = Infinity"
  using startNewGame_maxRolls [of "customLimit (numberOfInt 7)" zeroRandom]
    startNewGame_maxRolls [of "customLimit (Decimal False 2 D5 (- 1))" zeroRandom]
    startNewGame_maxRolls [of "customLimit (Decimal False 0 D1 21)" zeroRandom]
    startNewGame_maxRolls [of "customLimit (Decimal False 0 D5 (- 7))" zeroRandom]
    startNewGame_maxRolls [of "customLimit (Decimal False 0 D5 (- 1))" zeroRandom]
    startNewGame_maxRolls [of "customLimit (Decimal True 0 D5 (- 1))" zeroRandom]
    startNewGame_maxRolls [of "customLimit (Zero False)" zeroRandom]
    startNewGame_maxRolls [of "customLimit (Zero True)" zeroRandom]
    startNewGame_maxRolls [of "customLimit NotANumber" zeroRandom]
    startNewGame_maxRolls [of "customLimit PlusInfinity" zeroRandom]
    startNewGame_maxRolls [of "customLimit (numberOfInt (- 5))\<lparr>maxRollsSelection := ''3''\<rparr>" zeroRandom]
    startNewGame_maxRolls [of "initialState\<lparr>customMaxRolls := numberOfInt (- 5)\<rparr>" zeroRandom]
  by (simp add: customLimit_def initialState_def parse_samples parseInt_special parseInt_numberOfInt)

text \<open>
  The claim as stated fails for a negative custom maximum: \<^verbatim>\<open>parseInt(-5) || 10\<close> is
  \<open>-5\<close>, because \<open>-5\<close> is truthy.
\<close>

theorem negative_custom_limit_kept:
  "maxRolls (startNewGame (customLimit (numberOfInt (- 5))) zeroRandom) = Fin (- 5)
   \<and> maxRolls (startNewGame (customLimit (numberOfInt (- 5))) zeroRandom) \<noteq> Fin 10"
  by (simp add: startNewGame_maxRolls_eq customLimit_def initialState_def parseInt_numberOfInt
      js_or_def)

section \<open>Reordering by drag and drop\<close>

lemma findIndex_first:
  assumes "i < length xs" and "P (xs ! i)" and "\<forall>k<i. \<not> P (xs ! k)"
  shows "findIndex P xs = int i"
  using assms
proof (induction xs arbitrary: i)
  case Nil
  then show ?case by simp
next
  case (Cons x xs)
  show ?case
  proof (cases i)
    case 0
    with Cons.prems show ?thesis by simp
  next
    case (Suc m)
    with Cons.prems have "\<not> P x" by auto
    moreover have "findIndex P xs = int m"
    proof (rule Cons.IH)
      show "m < length xs" using Cons.prems Suc by simp
      show "P (xs ! m)" using Cons.prems Suc by simp
      show "\<forall>k<m. \<not> P (xs ! k)"
      proof (intro allI impI)
        fix k assume "k < m"
        then have "Suc k < i" using Suc by simp
        with Cons.prems(3) have "\<not> P ((x # xs) ! Suc k)" by blast
        then show "\<not> P (xs ! k)" by simp
      qed
    qed
    ultimately show ?thesis using Suc by simp
  qed
qed

lemma splice_remove_one:
  assumes "i < length xs"
  shows "splice xs (int i) (Suc 0) [] = ([xs ! i], take i xs @ drop (Suc i) xs)"
proof -
  have st: "spliceStart xs (int i) = i" using assms by (simp add: spliceStart_def)
  have dc: "min (Suc 0) (length xs - i) = Suc 0" using assms by simp
  have "take 1 (drop i xs) = [xs ! i]"
    using assms by (simp add: take_Suc_conv_app_nth [of 0] hd_drop_conv_nth take_Suc)
  then show ?thesis by (simp add: splice_def st dc Let_def)
qed

lemma splice_insert_one:
  assumes "j \<le> length ys"
  shows "snd (splice ys (int j) 0 [x]) = take j ys @ x # drop j ys"
proof -
  have st: "spliceStart ys (int j) = j" using assms by (simp add: spliceStart_def)
  show ?thesis by (simp add: splice_def st Let_def)
qed

lemma remove_insert_props:
  assumes "i < length xs" and "j < length xs"
    and zs: "zs = take j (take i xs @ drop (Suc i) xs) @ xs ! i # drop j (take i xs @ drop (Suc i) xs)"
  shows "length zs = length xs"
    and "zs ! j = xs ! i"
    and "take j zs @ drop (Suc j) zs = take i xs @ drop (Suc i) xs"
    and "\<forall>k<length xs. zs ! k =
           (if k = j then xs ! i
            else if i \<le> k \<and> k < j then xs ! Suc k
            else if j < k \<and> k \<le> i then xs ! (k - 1)
            else xs ! k)"
proof -
  define ys where "ys = take i xs @ drop (Suc i) xs"
  have ly: "length ys = length xs - 1" using assms(1,2) by (simp add: ys_def)
  have jl: "j \<le> length ys" using assms(1,2) ly by simp
  have m: "zs = take j ys @ xs ! i # drop j ys" by (simp add: zs ys_def)
  show "length zs = length xs" using assms(1,2) ly jl by (simp add: m)
  show "zs ! j = xs ! i" using jl by (simp add: m nth_append)
  show "take j zs @ drop (Suc j) zs = take i xs @ drop (Suc i) xs"
    using jl by (simp add: m ys_def [symmetric])
  have ynth: "ys ! k = (if k < i then xs ! k else xs ! Suc k)" if "k < length ys" for k
    using that assms(1,2) ly by (auto simp add: ys_def nth_append)
  show "\<forall>k<length xs. zs ! k =
           (if k = j then xs ! i
            else if i \<le> k \<and> k < j then xs ! Suc k
            else if j < k \<and> k \<le> i then xs ! (k - 1)
            else xs ! k)"
  proof (intro allI impI)
    fix k assume k: "k < length xs"
    consider "k < j" | "k = j" | "j < k" by linarith
    then show "zs ! k =
           (if k = j then xs ! i
            else if i \<le> k \<and> k < j then xs ! Suc k
            else if j < k \<and> k \<le> i then xs ! (k - 1)
            else xs ! k)"
    proof cases
      case 1
      then have "zs ! k = ys ! k" using jl by (simp add: m nth_append)
      also have "\<dots> = (if k < i then xs ! k else xs ! Suc k)"
        using 1 jl by (intro ynth) simp
      finally show ?thesis using 1 by auto
    next
      case 2
      then show ?thesis using jl by (simp add: m nth_append)
    next
      case 3
      then have "zs ! k = ys ! (k - 1)"
        using jl by (simp add: m nth_append nth_Cons')
      also have "\<dots> = (if k - 1 < i then xs ! (k - 1) else xs ! Suc (k - 1))"
        using 3 k ly by (intro ynth) simp
      finally show ?thesis using 3 by auto
    qed
  qed
qed

lemma first_index_exists:
  assumes "a \<in> f ` set xs"
  shows "\<exists>i<length xs. f (xs ! i) = a \<and> (\<forall>k<i. f (xs ! k) \<noteq> a)"
proof -
  from assms obtain m where m: "m < length xs" "f (xs ! m) = a"
    by (auto simp add: in_set_conv_nth)
  define i where "i = (LEAST n. n < length xs \<and> f (xs ! n) = a)"
  have "i < length xs \<and> f (xs ! i) = a"
    unfolding i_def using m by (intro LeastI [of "\<lambda>n. n < length xs \<and> f (xs ! n) = a" m]) simp
  moreover have "\<forall>k<i. f (xs ! k) \<noteq> a"
  proof (intro allI impI)
    fix k assume k: "k < i"
    then have "\<not> (k < length xs \<and> f (xs ! k) = a)"
      unfolding i_def by (rule not_less_Least)
    moreover have "k < length xs" using k \<open>i < length xs \<and> f (xs ! i) = a\<close> by simp
    ultimately show "f (xs ! k) \<noteq> a" by simp
  qed
  ultimately show ?thesis by blast
qed

lemma handleDrop_noop:
  assumes "draggedId s = None \<or> draggedId s = Some b"
  shows "handleDrop s b = Some (s\<lparr>draggedId := None, dragOverId := None\<rparr>)"
  using assms by (auto simp add: handleDrop_def handleDragEnd_def)

lemma handleDrop_move:
  assumes "draggedId s = Some a" and "a \<noteq> b"
    and "i < length (dice s)" and "die_id (dice s ! i) = a" and "\<forall>k<i. die_id (dice s ! k) \<noteq> a"
    and "j < length (dice s)" and "die_id (dice s ! j) = b" and "\<forall>k<j. die_id (dice s ! k) \<noteq> b"
  shows "handleDrop s b = Some (s\<lparr>dice := take j (take i (dice s) @ drop (Suc i) (dice s)) @ dice s ! i
            # drop j (take i (dice s) @ drop (Suc i) (dice s)),
          draggedId := None, dragOverId := None\<rparr>)"
proof -
  have di: "findIndex (\<lambda>d. die_id d = a) (dice s) = int i"
    using assms(3,4,5) by (intro findIndex_first) auto
  have ti: "findIndex (\<lambda>d. die_id d = b) (dice s) = int j"
    using assms(6,7,8) by (intro findIndex_first) auto
  have "j \<le> length (take i (dice s) @ drop (Suc i) (dice s))"
    using assms(3,6) by simp
  then have ins: "snd (splice (take i (dice s) @ drop (Suc i) (dice s)) (int j) 0 [dice s ! i]) =
      take j (take i (dice s) @ drop (Suc i) (dice s)) @ dice s ! i
        # drop j (take i (dice s) @ drop (Suc i) (dice s))"
    by (rule splice_insert_one)
  show ?thesis
    using assms(1,2)
    by (simp add: handleDrop_def di ti splice_remove_one [OF assms(3)] ins handleDragEnd_def)
qed

text \<open>
  Claim C6.  A drop with no drag source, or onto the dragged die itself, leaves the dice
  as they are.  When the dragged identifier \<open>a\<close> and the target identifier \<open>b\<close> differ
  and both occur among the dice, let \<open>i\<close> and \<open>j\<close> be the first positions of \<open>a\<close> and
  \<open>b\<close>: after the drop the dragged die stands at \<open>j\<close>, the dice between the two
  positions have moved by one place towards \<open>i\<close>, every other position is unchanged,
  and without the dragged die the sequence is the old one.  In every case both
  \<^verbatim>\<open>draggedId\<close> and \<^verbatim>\<open>dragOverId\<close> are cleared and nothing else changes.
\<close>

theorem handleDrop_reorders:
  "(draggedId s = None \<or> draggedId s = Some b \<longrightarrow>
      handleDrop s b = Some (s\<lparr>draggedId := None, dragOverId := None\<rparr>))
   \<and> (draggedId s = Some a \<and> a \<noteq> b \<and> a \<in> die_id ` set (dice s) \<and> b \<in> die_id ` set (dice s) \<longrightarrow>
      (\<exists>i j ds.
          i < length (dice s) \<and> die_id (dice s ! i) = a \<and> (\<forall>k<i. die_id (dice s ! k) \<noteq> a)
        \<and> j < length (dice s) \<and> die_id (dice s ! j) = b \<and> (\<forall>k<j. die_id (dice s ! k) \<noteq> b)
        \<and> handleDrop s b = Some (s\<lparr>dice := ds, draggedId := None, dragOverId := None\<rparr>)
        \<and> length ds = length (dice s)
        \<and> ds ! j = dice s ! i
        \<and> take j ds @ drop (Suc j) ds = take i (dice s) @ drop (Suc i) (dice s)
        \<and> (\<forall>k<length (dice s). ds ! k =
             (if k = j then dice s ! i
              else if i \<le> k \<and> k < j then dice s ! Suc k
              else if j < k \<and> k \<le> i then dice s ! (k - 1)
              else dice s ! k))))"
proof (intro conjI impI)
  assume "draggedId s = None \<or> draggedId s = Some b"
  then show "handleDrop s b = Some (s\<lparr>draggedId := None, dragOverId := None\<rparr>)"
    by (rule handleDrop_noop)
next
  assume h: "draggedId s = Some a \<and> a \<noteq> b \<and> a \<in> die_id ` set (dice s) \<and> b \<in> die_id ` set (dice s)"
  from h obtain i where i: "i < length (dice s)" "die_id (dice s ! i) = a" "\<forall>k<i. die_id (dice s ! k) \<noteq> a"
    using first_index_exists [of a die_id "dice s"] by blast
  from h obtain j where j: "j < length (dice s)" "die_id (dice s ! j) = b" "\<forall>k<j. die_id (dice s ! k) \<noteq> b"
    using first_index_exists [of b die_id "dice s"] by blast
  define ds where "ds = take j (take i (dice s) @ drop (Suc i) (dice s)) @ dice s ! i
            # drop j (take i (dice s) @ drop (Suc i) (dice s))"
  from h have d: "draggedId s = Some a" and ab: "a \<noteq> b" by simp_all
  have drop: "handleDrop s b = Some (s\<lparr>dice := ds, draggedId := None, dragOverId := None\<rparr>)"
    unfolding ds_def using d ab i j by (rule handleDrop_move)
  note props = remove_insert_props [OF i(1) j(1) ds_def]
  from i j drop props show "\<exists>i j ds.
          i < length (dice s) \<and> die_id (dice s ! i) = a \<and> (\<forall>k<i. die_id (dice s ! k) \<noteq> a)
        \<and> j < length (dice s) \<and> die_id (dice s ! j) = b \<and> (\<forall>k<j. die_id (dice s ! k) \<noteq> b)
        \<and> handleDrop s b = Some (s\<lparr>dice := ds, draggedId := None, dragOverId := None\<rparr>)
        \<and> length ds = length (dice s)
        \<and> ds ! j = dice s ! i
        \<and> take j ds @ drop (Suc j) ds = take i (dice s) @ drop (Suc i) (dice s)
        \<and> (\<forall>k<length (dice s). ds ! k =
             (if k = j then dice s ! i
              else if i \<le> k \<and> k < j then dice s ! Suc k
              else if j < k \<and> k \<le> i then dice s ! (k - 1)
              else dice s ! k))"
    by blast
qed

lemma midGame_fields:
  "dice midGame =
     [\<lparr>die_id = 0, die_value = 0\<rparr>, \<lparr>die_id = 1, die_value = 1\<rparr>, \<lparr>die_id = 2, die_value = 2\<rparr>,
      \<lparr>die_id = 3, die_value = 3\<rparr>, \<lparr>die_id = 4, die_value = 4\<rparr>]"
  "frozenIds midGame = {1}"
  "currentRoll midGame = 2"
  "maxRolls midGame = Infinity"
  "nextTimer midGame = 0"
  "timers midGame = (\<lambda>_. None)"
  "draggedId midGame = None"
  by (simp_all add: midGame_def initialState_def initialDice_def cycleRandom_def randomFace_def
      upt_rec [of _ "numeral _"])

theorem handleDrop_reorders_witness:
  "(\<exists>ds. handleDrop dragged13 3 = Some (dragged13\<lparr>dice := ds, draggedId := None, dragOverId := None\<rparr>)
         \<and> length ds = length (dice dragged13))
   \<and> map_option (\<lambda>st. map die_id (dice st)) (handleDrop dragged13 3) = Some [0, 2, 3, 1, 4]
   \<and> draggedId dragged13 = Some 1
   \<and> handleDrop dragged13 1 = Some (dragged13\<lparr>draggedId := None, dragOverId := None\<rparr>)
   \<and> handleDrop midGame 3 = Some (midGame\<lparr>draggedId := None, dragOverId := None\<rparr>)"
proof -
  have d: "draggedId dragged13 = Some 1" "dice dragged13 = dice midGame"
    by (simp_all add: dragged13_def)
  have h: "draggedId dragged13 = Some 1 \<and> (1::nat) \<noteq> 3
      \<and> 1 \<in> die_id ` set (dice dragged13) \<and> 3 \<in> die_id ` set (dice dragged13)"
    by (simp add: d midGame_fields)
  have n: "draggedId midGame = None \<or> draggedId midGame = Some 3"
    by (simp add: midGame_fields)
  have e: "map_option (\<lambda>st. map die_id (dice st)) (handleDrop dragged13 3) = Some [0, 2, 3, 1, 4]"
    by (simp add: handleDrop_def d midGame_fields handleDragEnd_def splice_def spliceStart_def
        Let_def)
  from handleDrop_reorders [of dragged13 3 1] handleDrop_reorders [of dragged13 1 1]
    handleDrop_reorders [of midGame 3 1] h n d(1) e
  show ?thesis by blast
qed

section \<open>Runs of the page\<close>

subsection \<open>Rerolling keeps the frozen dice\<close>

lemma frozenKept_refl: "frozenKept F ds ds"
  by (simp add: frozenKept_def list_all2_same)

lemma frozenKept_trans:
  assumes "frozenKept F a b" and "frozenKept F b c"
  shows "frozenKept F a c"
  using assms unfolding frozenKept_def
  by (rule list_all2_trans [rotated]) auto

lemma reroll_frozenKept: "frozenKept F ds (reroll F rnd k ds)"
  unfolding frozenKept_def
  by (induction ds arbitrary: k) simp_all

lemma reroll_ids: "map die_id (reroll F rnd k ds) = map die_id ds"
  by (induction ds arbitrary: k) simp_all

lemma reroll_length: "length (reroll F rnd j ds) = length ds"
  by (induction ds arbitrary: j) simp_all

text \<open>What a reroll stores at each position: a frozen die as it is, any other die with
  the face of the next unused random number.\<close>

lemma reroll_nth:
  "k < length ds \<Longrightarrow>
     reroll F rnd j ds ! k =
       (if die_id (ds ! k) \<in> F then ds ! k
        else (ds ! k)\<lparr>die_value :=
               randomFace (rnd (j + length (filter (\<lambda>d. die_id d \<notin> F) (take k ds))))\<rparr>)"
proof (induction ds arbitrary: j k)
  case Nil
  then show ?case by simp
next
  case (Cons d ds)
  show ?case
  proof (cases k)
    case 0
    then show ?thesis by simp
  next
    case (Suc m)
    with Cons.prems have m: "m < length ds" by simp
    show ?thesis
      using Suc Cons.IH [OF m, of j] Cons.IH [OF m, of "Suc j"] by simp
  qed
qed

lemma frozenKept_ids: "frozenKept F a b \<Longrightarrow> map die_id b = map die_id a"
  unfolding frozenKept_def
  by (induction a b rule: list_all2_induct) simp_all

lemma frozenKept_frozenDice: "frozenKept F a b \<Longrightarrow> frozenDice F b = frozenDice F a"
  unfolding frozenKept_def frozenDice_def
  by (induction a b rule: list_all2_induct) auto

lemma reroll_frozenDice: "frozenDice F (reroll F rnd k ds) = frozenDice F ds"
  using reroll_frozenKept by (rule frozenKept_frozenDice)

subsection \<open>Handlers, the timers and the effect\<close>

lemma handleDrop_frame:
  assumes "handleDrop s b = Some s'"
  shows "timers s' = timers s" "nextTimer s' = nextTimer s" "frozenIds s' = frozenIds s"
    "currentRoll s' = currentRoll s" "maxRolls s' = maxRolls s"
    "numDice s' = numDice s" "limitEnabled s' = limitEnabled s"
    "maxRollsSelection s' = maxRollsSelection s" "customMaxRolls s' = customMaxRolls s"
  using assms
  by (auto simp add: handleDrop_def handleDragEnd_def Let_def
      split: if_splits prod.splits list.splits)

lemma handle_deps:
  assumes "\<not> startsGame e"
  shows "deps (handle s e rnd) = deps s"
proof (cases e)
  case (Drop b)
  then show ?thesis
    by (auto simp add: deps_def handleDrop_frame split: option.splits)
next
  case (IntervalFire h)
  then show ?thesis
    by (simp add: deps_def intervalCallback_def Let_def split: option.splits)
next
  case (TimeoutFire h)
  then show ?thesis
    by (simp add: deps_def timeoutCallback_def calculateScore_def Let_def split: option.splits)
qed (use assms in \<open>simp_all add: deps_def handleDragStart_def handleDragEnter_def
       handleDragEnd_def toggleFreeze_def rollDice_def\<close>)

lemma step_inGame: "\<not> startsGame e \<Longrightarrow> step s e rnd = handle s e rnd"
  by (simp add: step_def handle_deps)

lemma run_Nil: "run s [] = s"
  by (simp add: run_def)

lemma run_Cons: "run s ((e, rnd) # evs) = run (step s e rnd) evs"
  by (simp add: run_def)

lemma run_append: "run s (evs @ evs') = run (run s evs) evs'"
  by (simp add: run_def)

subsection \<open>A pending roll keeps what it captured\<close>

lemma pendingRoll_alt:
  "pendingRoll st h F D \<longleftrightarrow>
     (\<exists>c. timers st h = Some c \<and> cl_dice c = D \<and> cl_frozenIds c = F
          \<and> frozenKept F D (cl_tempDice c)) \<and> h < nextTimer st"
  by (auto simp add: pendingRoll_def split: option.splits)

lemma pendingRoll_frame:
  assumes "pendingRoll st h F D" and "timers st' = timers st" and "nextTimer st' = nextTimer st"
  shows "pendingRoll st' h F D"
  using assms by (simp add: pendingRoll_alt)

lemma pendingRoll_start:
  assumes "\<not> js_ge (Fin (int (currentRoll s))) (maxRolls s)"
  shows "pendingRoll (rollDice s) (nextTimer s) (frozenIds s) (dice s)"
  using assms by (simp add: pendingRoll_alt rollDice_def frozenKept_refl)

lemma pendingRoll_handle:
  assumes "pendingRoll st h F D" and "e \<noteq> TimeoutFire h"
  shows "pendingRoll (handle st e rnd) h F D"
proof (cases e)
  case (Drop b)
  show ?thesis
  proof (cases "handleDrop st b")
    case None
    with Drop assms(1) show ?thesis by simp
  next
    case (Some s')
    with Drop assms(1) show ?thesis
      by (auto intro: pendingRoll_frame simp add: handleDrop_frame [OF Some])
  qed
next
  case ClickRoll
  with assms(1) show ?thesis
    by (auto simp add: pendingRoll_alt rollDice_def)
next
  case ClickNewGame
  with assms(1) show ?thesis
    by (simp add: pendingRoll_alt startNewGame_fields)
next
  case (IntervalFire k)
  show ?thesis
  proof (cases "timers st k")
    case None
    with IntervalFire assms(1) show ?thesis by (simp add: intervalCallback_def)
  next
    case (Some c)
    show ?thesis
    proof (cases "k = h")
      case True
      with Some assms(1) have c: "cl_dice c = D" "cl_frozenIds c = F" "frozenKept F D (cl_tempDice c)"
        "h < nextTimer st"
        by (simp_all add: pendingRoll_alt)
      have "frozenKept F D (reroll F rnd 0 (cl_tempDice c))"
        using c(3) reroll_frozenKept by (rule frozenKept_trans)
      with c True Some IntervalFire show ?thesis
        by (simp add: pendingRoll_alt intervalCallback_def Let_def)
    next
      case False
      with Some assms(1) IntervalFire show ?thesis
        by (simp add: pendingRoll_alt intervalCallback_def Let_def)
    qed
  qed
next
  case (TimeoutFire k)
  with assms(2) have "k \<noteq> h" by simp
  with TimeoutFire assms(1) show ?thesis
    by (simp add: pendingRoll_alt timeoutCallback_def calculateScore_def Let_def split: option.splits)
qed (use assms(1) in \<open>simp_all add: pendingRoll_alt handleDragStart_def handleDragEnter_def
       handleDragEnd_def toggleFreeze_def\<close>)

lemma pendingRoll_step:
  assumes "pendingRoll st h F D" and "e \<noteq> TimeoutFire h"
  shows "pendingRoll (step st e rnd) h F D"
proof -
  have p: "pendingRoll (handle st e rnd) h F D" using assms by (rule pendingRoll_handle)
  have "pendingRoll (startNewGame (handle st e rnd) rnd) h F D"
    using p by (simp add: pendingRoll_alt startNewGame_fields)
  with p show ?thesis by (simp add: step_def Let_def)
qed

lemma pendingRoll_run:
  assumes "pendingRoll st h F D" and "\<forall>x\<in>set evs. fst x \<noteq> TimeoutFire h"
  shows "pendingRoll (run st evs) h F D"
  using assms
proof (induction evs arbitrary: st)
  case Nil
  then show ?case by (simp add: run_Nil)
next
  case (Cons x evs)
  obtain e rnd where x: "x = (e, rnd)" by (cases x)
  with Cons.prems have "pendingRoll (step st e rnd) h F D"
    by (intro pendingRoll_step) simp_all
  then have "pendingRoll (run (step st e rnd) evs) h F D"
    using Cons.prems(2) by (intro Cons.IH) simp_all
  then show ?case by (simp add: x run_Cons)
qed

lemma pendingRoll_timeout:
  assumes "pendingRoll st h F D"
  shows "step st (TimeoutFire h) rnd =
     st\<lparr>dice := reroll F rnd 0 D,
        timers := (timers st)(h := None),
        score := (\<Sum>d\<leftarrow>reroll F rnd 0 D. die_value d + 1),
        isRolling := False\<rparr>"
  using assms
  by (auto simp add: step_inGame timeoutCallback_def pendingRoll_alt calculateScore_def foldl_score
      Let_def)

lemma pendingRoll_interval:
  assumes "pendingRoll st h F D"
  shows "frozenKept F D (dice (step st (IntervalFire h) rnd))"
proof -
  from assms obtain c where c: "timers st h = Some c" "frozenKept F D (cl_tempDice c)" "cl_frozenIds c = F"
    by (auto simp add: pendingRoll_alt)
  have "frozenKept F D (reroll F rnd 0 (cl_tempDice c))"
    using c(2) reroll_frozenKept by (rule frozenKept_trans)
  with c show ?thesis
    by (simp add: step_inGame intervalCallback_def Let_def)
qed

subsection \<open>A drop permutes the dice\<close>

lemma splice_remove_set:
  assumes "splice xs start (Suc 0) [] = (x # r, rest)"
  shows "set xs = insert x (set rest)"
proof -
  define st where "st = spliceStart xs start"
  define dc where "dc = min (Suc 0) (length xs - st)"
  from assms have rm: "take dc (drop st xs) = x # r" and rest: "rest = take st xs @ drop (st + dc) xs"
    by (simp_all add: splice_def Let_def st_def dc_def)
  have "dc \<noteq> 0"
  proof
    assume "dc = 0"
    with rm show False by simp
  qed
  then have dc1: "dc = Suc 0" and lt: "st < length xs"
    by (auto simp add: dc_def min_def split: if_splits)
  from rm dc1 lt have x: "x = xs ! st"
    by (simp add: take_Suc hd_drop_conv_nth)
  have "xs = take st xs @ xs ! st # drop (Suc st) xs"
    using lt by (rule id_take_nth_drop)
  then have "set xs = set (take st xs @ xs ! st # drop (Suc st) xs)" by simp
  then show ?thesis by (simp add: rest dc1 x Un_commute insert_commute)
qed

lemma splice_insert_set: "set (snd (splice ys t 0 [x])) = insert x (set ys)"
proof -
  have "set (take n ys) \<union> set (drop n ys) = set ys" for n
    by (metis append_take_drop_id set_append)
  then show ?thesis
    by (auto simp add: splice_def Let_def)
qed

lemma handleDrop_set:
  assumes "handleDrop s b = Some s'"
  shows "set (dice s') = set (dice s)"
proof (cases "draggedId s = None \<or> draggedId s = Some b")
  case True
  with assms show ?thesis by (auto simp add: handleDrop_def handleDragEnd_def)
next
  case False
  then obtain a where nn: "draggedId s = Some a" and nb: "a \<noteq> b" by auto
  obtain removed newDice where sp:
    "splice (dice s) (findIndex (\<lambda>d. Some (die_id d) = draggedId s) (dice s)) (Suc 0) [] = (removed, newDice)"
    by (cases "splice (dice s) (findIndex (\<lambda>d. Some (die_id d) = draggedId s) (dice s)) (Suc 0) []")
  show ?thesis
  proof (cases removed)
    case Nil
    with nn nb sp assms show ?thesis by (simp add: handleDrop_def Let_def)
  next
    case (Cons x r)
    with nn nb sp assms have
      "dice s' = snd (splice newDice (findIndex (\<lambda>d. die_id d = b) (dice s)) 0 [x])"
      by (auto simp add: handleDrop_def Let_def handleDragEnd_def)
    moreover have "set (dice s) = insert x (set newDice)"
      using sp Cons by (intro splice_remove_set [of _ _ _ r]) simp
    ultimately show ?thesis by (simp add: splice_insert_set)
  qed
qed

lemma frozenDice_set: "set ds = set ds' \<Longrightarrow> set (frozenDice F ds) = set (frozenDice F ds')"
  by (simp add: frozenDice_def)

subsection \<open>Frozen dice on the page and in the callbacks\<close>

lemma frozenInv_handle:
  assumes "frozenInv F D st" and "\<not> startsGame e" and "\<not> togglesFreeze e"
  shows "frozenInv F D (handle st e rnd)"
proof (cases e)
  case (Drop b)
  show ?thesis
  proof (cases "handleDrop st b")
    case None
    with Drop assms(1) show ?thesis by simp
  next
    case (Some s')
    have "set (frozenDice F (dice s')) = set (frozenDice F (dice st))"
      using handleDrop_set [OF Some] by (rule frozenDice_set)
    with Drop Some assms(1) show ?thesis
      by (auto simp add: frozenInv_def handleDrop_frame [OF Some])
  qed
next
  case ClickRoll
  with assms(1) show ?thesis
    by (auto simp add: frozenInv_def rollDice_def)
next
  case (IntervalFire k)
  show ?thesis
  proof (cases "timers st k")
    case None
    with IntervalFire assms(1) show ?thesis by (simp add: intervalCallback_def)
  next
    case (Some c)
    with assms(1) have c: "cl_frozenIds c = F" "set (frozenDice F (cl_tempDice c)) = D"
      by (auto simp add: frozenInv_def)
    with Some IntervalFire assms(1) show ?thesis
      by (auto simp add: frozenInv_def intervalCallback_def Let_def reroll_frozenDice)
  qed
next
  case (TimeoutFire k)
  show ?thesis
  proof (cases "timers st k")
    case None
    with TimeoutFire assms(1) show ?thesis by (simp add: timeoutCallback_def)
  next
    case (Some c)
    with assms(1) have c: "cl_frozenIds c = F" "set (frozenDice F (cl_dice c)) = D"
      by (auto simp add: frozenInv_def)
    with Some TimeoutFire assms(1) show ?thesis
      by (auto simp add: frozenInv_def timeoutCallback_def calculateScore_def Let_def
          reroll_frozenDice)
  qed
qed (use assms in \<open>simp_all add: frozenInv_def handleDragStart_def handleDragEnter_def
       handleDragEnd_def\<close>)

lemma frozenInv_run:
  assumes "frozenInv F D st" and "\<forall>x\<in>set evs. \<not> startsGame (fst x) \<and> \<not> togglesFreeze (fst x)"
  shows "frozenInv F D (run st evs)"
  using assms
proof (induction evs arbitrary: st)
  case Nil
  then show ?case by (simp add: run_Nil)
next
  case (Cons x evs)
  obtain e rnd where x: "x = (e, rnd)" by (cases x)
  with Cons.prems have "frozenInv F D (handle st e rnd)"
    by (intro frozenInv_handle) simp_all
  moreover have "step st e rnd = handle st e rnd"
    using Cons.prems(2) x by (intro step_inGame) simp
  ultimately have "frozenInv F D (run (step st e rnd) evs)"
    using Cons.prems(2) by (intro Cons.IH) simp_all
  then show ?case by (simp add: x run_Cons)
qed

subsection \<open>The roll counter along a run\<close>

lemma handle_counter:
  assumes "\<not> startsGame e" and "js_ge (maxRolls st) (Fin (int (currentRoll st)))"
  shows "maxRolls (handle st e rnd) = maxRolls st"
    and "currentRoll st \<le> currentRoll (handle st e rnd)"
    and "js_ge (maxRolls (handle st e rnd)) (Fin (int (currentRoll (handle st e rnd))))"
proof -
  have roll: "js_ge (maxRolls st) (Fin (1 + int (currentRoll st)))"
    if "\<not> js_ge (Fin (int (currentRoll st))) (maxRolls st)"
    using that assms(2) by (cases "maxRolls st") simp_all
  have "maxRolls (handle st e rnd) = maxRolls st
      \<and> currentRoll st \<le> currentRoll (handle st e rnd)
      \<and> js_ge (maxRolls (handle st e rnd)) (Fin (int (currentRoll (handle st e rnd))))"
  proof (cases e)
    case (Drop b)
    with assms(2) show ?thesis
      by (auto simp add: handleDrop_frame split: option.splits)
  next
    case ClickRoll
    with assms(2) roll show ?thesis by (simp add: rollDice_def)
  next
    case (IntervalFire k)
    with assms(2) show ?thesis
      by (simp add: intervalCallback_def Let_def split: option.splits)
  next
    case (TimeoutFire k)
    with assms(2) show ?thesis
      by (simp add: timeoutCallback_def calculateScore_def Let_def split: option.splits)
  qed (use assms in \<open>simp_all add: handleDragStart_def handleDragEnter_def
       handleDragEnd_def toggleFreeze_def\<close>)
  then show "maxRolls (handle st e rnd) = maxRolls st"
    and "currentRoll st \<le> currentRoll (handle st e rnd)"
    and "js_ge (maxRolls (handle st e rnd)) (Fin (int (currentRoll (handle st e rnd))))"
    by blast+
qed

lemma run_counter:
  assumes "js_ge (maxRolls st) (Fin (int (currentRoll st)))"
    and "\<forall>x\<in>set evs. \<not> startsGame (fst x)"
  shows "maxRolls (run st evs) = maxRolls st
    \<and> currentRoll st \<le> currentRoll (run st evs)
    \<and> js_ge (maxRolls (run st evs)) (Fin (int (currentRoll (run st evs))))"
  using assms
proof (induction evs arbitrary: st)
  case Nil
  then show ?case by (simp add: run_Nil)
next
  case (Cons x evs)
  obtain e rnd where x: "x = (e, rnd)" by (cases x)
  from Cons.prems x have ng: "\<not> startsGame e" by simp
  have st: "step st e rnd = handle st e rnd" using ng by (rule step_inGame)
  note h = handle_counter [OF ng Cons.prems(1), of rnd]
  have ih: "maxRolls (run (handle st e rnd) evs) = maxRolls (handle st e rnd)
    \<and> currentRoll (handle st e rnd) \<le> currentRoll (run (handle st e rnd) evs)
    \<and> js_ge (maxRolls (run (handle st e rnd) evs)) (Fin (int (currentRoll (run (handle st e rnd) evs))))"
    using h(3) Cons.prems(2) by (intro Cons.IH) simp_all
  from ih h(1) have a: "maxRolls (run (handle st e rnd) evs) = maxRolls st" by simp
  from ih h(2) have b: "currentRoll st \<le> currentRoll (run (handle st e rnd) evs)" by linarith
  from ih have c: "js_ge (maxRolls (run (handle st e rnd) evs))
      (Fin (int (currentRoll (run (handle st e rnd) evs))))" by blast
  from a b c show ?case unfolding x run_Cons st by blast
qed

lemma rollDice_at_limit:
  assumes "maxRolls st = Fin (int (currentRoll st))"
  shows "rollDice st = st"
  using assms by (simp add: rollDice_def)

lemma counter_fields:
  "currentRoll (rollDice s) =
     (if js_ge (Fin (int (currentRoll s))) (maxRolls s) then currentRoll s else currentRoll s + 1)"
  "maxRolls (rollDice s) = maxRolls s"
  "currentRoll (intervalCallback s h rnd) = currentRoll s"
  "maxRolls (intervalCallback s h rnd) = maxRolls s"
  "currentRoll (timeoutCallback s h rnd) = currentRoll s"
  "maxRolls (timeoutCallback s h rnd) = maxRolls s"
  by (simp_all add: rollDice_def intervalCallback_def timeoutCallback_def calculateScore_def
      Let_def split: option.splits)

section \<open>The roll counter\<close>

text \<open>
  Claim C2, amended.  Take a new game whose roll limit is unbounded or an integer that
  is not negative, and any run of events that start no further game (rolls, timer
  callbacks, drags, freezes, presentation).  In every state of the run the roll counter
  does not exceed the limit, the limit is the one of the new game, the counter never
  decreases as the run goes on, and \<^verbatim>\<open>rollDice\<close> called with the counter at (or above)
  the limit returns the state unchanged, timers included.
\<close>

theorem roll_counter_bounded:
  assumes "js_ge (maxRolls (startNewGame s rnd)) (Fin 0)"
    and "\<forall>x\<in>set evs. \<not> startsGame (fst x)"
    and "\<forall>x\<in>set evs'. \<not> startsGame (fst x)"
  shows "js_ge (maxRolls (run (startNewGame s rnd) evs))
           (Fin (int (currentRoll (run (startNewGame s rnd) evs))))
    \<and> maxRolls (run (startNewGame s rnd) evs) = maxRolls (startNewGame s rnd)
    \<and> currentRoll (run (startNewGame s rnd) evs) \<le> currentRoll (run (startNewGame s rnd) (evs @ evs'))
    \<and> (js_ge (Fin (int (currentRoll (run (startNewGame s rnd) evs)))) (maxRolls (run (startNewGame s rnd) evs))
        \<longrightarrow> rollDice (run (startNewGame s rnd) evs) = run (startNewGame s rnd) evs)"
proof -
  define s0 where "s0 = startNewGame s rnd"
  have b0: "js_ge (maxRolls s0) (Fin (int (currentRoll s0)))"
    using assms(1) by (simp add: s0_def startNewGame_fields)
  note r1 = run_counter [OF b0 assms(2)]
  from r1 have b1: "js_ge (maxRolls (run s0 evs)) (Fin (int (currentRoll (run s0 evs))))" by blast
  note r2 = run_counter [OF b1 assms(3)]
  have "rollDice (run s0 evs) = run s0 evs"
    if "js_ge (Fin (int (currentRoll (run s0 evs)))) (maxRolls (run s0 evs))"
    using that by (simp add: rollDice_def)
  with r1 r2 show ?thesis
    unfolding s0_def [symmetric] run_append by blast
qed

theorem roll_counter_bounded_witness:
  "js_ge (maxRolls (run (startNewGame limitThree zeroRandom) threeRolls))
           (Fin (int (currentRoll (run (startNewGame limitThree zeroRandom) threeRolls))))
   \<and> maxRolls (run (startNewGame limitThree zeroRandom) threeRolls) = Fin 3
   \<and> currentRoll (run (startNewGame limitThree zeroRandom) threeRolls) = 3
   \<and> currentRoll (run (startNewGame limitThree zeroRandom) threeRolls)
       \<le> currentRoll (run (startNewGame limitThree zeroRandom) (threeRolls @ [(ClickRoll, zeroRandom)]))
   \<and> rollDice (run (startNewGame limitThree zeroRandom) threeRolls)
       = run (startNewGame limitThree zeroRandom) threeRolls"
proof -
  have m: "maxRolls (startNewGame limitThree zeroRandom) = Fin 3"
    by (simp add: startNewGame_maxRolls_eq limitThree_def initialState_def parseIntString_3)
  have h1: "js_ge (maxRolls (startNewGame limitThree zeroRandom)) (Fin 0)"
    by (simp add: m)
  have h2: "\<forall>x\<in>set threeRolls. \<not> startsGame (fst x)"
    by (simp add: threeRolls_def)
  have h3: "\<forall>x\<in>set [(ClickRoll, zeroRandom)]. \<not> startsGame (fst x)"
    by simp
  have c: "currentRoll (run (startNewGame limitThree zeroRandom) threeRolls) = 3"
    by (simp add: threeRolls_def run_Cons run_Nil step_inGame counter_fields
        startNewGame_fields m)
  from roll_counter_bounded [OF h1 h2 h3] m c show ?thesis by simp
qed

text \<open>
  The claim as stated fails in the new game that follows entering \<open>-5\<close> as the custom
  maximum: the limit is \<open>-5\<close> and the counter \<open>0\<close> exceeds it before any roll.
\<close>

theorem negative_limit_exceeded:
  "maxRolls (run (mount zeroRandom) negativeLimitEvents) = Fin (- 5)
   \<and> currentRoll (run (mount zeroRandom) negativeLimitEvents) = 0
   \<and> \<not> js_ge (maxRolls (run (mount zeroRandom) negativeLimitEvents))
          (Fin (int (currentRoll (run (mount zeroRandom) negativeLimitEvents))))"
proof -
  have "run (mount zeroRandom) negativeLimitEvents =
      startNewGame ((startNewGame ((startNewGame ((mount zeroRandom)\<lparr>limitEnabled := True\<rparr>) zeroRandom)
        \<lparr>maxRollsSelection := ''other''\<rparr>) zeroRandom)\<lparr>customMaxRolls := numberOfInt (- 5)\<rparr>) zeroRandom"
    by (simp add: negativeLimitEvents_def run_Cons run_Nil step_def deps_def startNewGame_fields
        mount_def initialState_def numberOfInt_samples)
  then show ?thesis
    by (simp add: startNewGame_fields startNewGame_maxRolls_eq parseInt_numberOfInt js_or_def)
qed

section \<open>Completion of a roll\<close>

text \<open>
  Claim C4.  Let \<^verbatim>\<open>rollDice\<close> pass its guard in state \<open>s\<close>; the roll is registered under
  the handle \<open>nextTimer s\<close> and the rolling flag is set.  Whatever happens before its
  timeout fires (interval callbacks of this or other rolls, drops that reorder the
  dice, new games, further rolls), the timeout callback stores the dice of \<open>s\<close> with the
  dice outside the frozen set of \<open>s\<close> drawn afresh: the identifiers are in the order they
  had in \<open>s\<close>, so a reorder made in between is gone.  It stores the score of exactly
  these dice, clears the rolling flag, and retires the handle.  Position by position:
  a die with a frozen identifier is stored as it was in \<open>s\<close>, and the \<open>j\<close>-th die that
  is not frozen is stored with the face \<^verbatim>\<open>Math.floor(Math.random() * 6)\<close> of the \<open>j\<close>-th
  random number the callback draws, a value in \<open>0..5\<close>.
\<close>

theorem roll_completion:
  assumes "\<not> js_ge (Fin (int (currentRoll s))) (maxRolls s)"
    and "\<forall>x\<in>set evs. fst x \<noteq> TimeoutFire (nextTimer s)"
  shows "isRolling (rollDice s)
    \<and> dice (step (run (rollDice s) evs) (TimeoutFire (nextTimer s)) rnd)
        = reroll (frozenIds s) rnd 0 (dice s)
    \<and> length (dice (step (run (rollDice s) evs) (TimeoutFire (nextTimer s)) rnd))
        = length (dice s)
    \<and> (\<forall>k<length (dice s).
          dice (step (run (rollDice s) evs) (TimeoutFire (nextTimer s)) rnd) ! k =
            (if die_id (dice s ! k) \<in> frozenIds s then dice s ! k
             else (dice s ! k)\<lparr>die_value :=
                    randomFace (rnd (length (filter (\<lambda>d. die_id d \<notin> frozenIds s)
                                               (take k (dice s)))))\<rparr>))
    \<and> ((\<forall>i. 0 \<le> rnd i \<and> rnd i < 1) \<longrightarrow>
          (\<forall>k<length (dice s). die_id (dice s ! k) \<notin> frozenIds s \<longrightarrow>
             0 \<le> die_value (dice (step (run (rollDice s) evs) (TimeoutFire (nextTimer s)) rnd) ! k)
           \<and> die_value (dice (step (run (rollDice s) evs) (TimeoutFire (nextTimer s)) rnd) ! k) \<le> 5))
    \<and> map die_id (dice (step (run (rollDice s) evs) (TimeoutFire (nextTimer s)) rnd))
        = map die_id (dice s)
    \<and> score (step (run (rollDice s) evs) (TimeoutFire (nextTimer s)) rnd)
        = (\<Sum>d\<leftarrow>dice (step (run (rollDice s) evs) (TimeoutFire (nextTimer s)) rnd). die_value d + 1)
    \<and> \<not> isRolling (step (run (rollDice s) evs) (TimeoutFire (nextTimer s)) rnd)
    \<and> timers (step (run (rollDice s) evs) (TimeoutFire (nextTimer s)) rnd) (nextTimer s) = None"
proof -
  define final where "final = step (run (rollDice s) evs) (TimeoutFire (nextTimer s)) rnd"
  have "pendingRoll (rollDice s) (nextTimer s) (frozenIds s) (dice s)"
    using assms(1) by (rule pendingRoll_start)
  then have "pendingRoll (run (rollDice s) evs) (nextTimer s) (frozenIds s) (dice s)"
    using assms(2) by (rule pendingRoll_run)
  then have "final =
     (run (rollDice s) evs)\<lparr>dice := reroll (frozenIds s) rnd 0 (dice s),
        timers := (timers (run (rollDice s) evs))(nextTimer s := None),
        score := (\<Sum>d\<leftarrow>reroll (frozenIds s) rnd 0 (dice s). die_value d + 1),
        isRolling := False\<rparr>"
    unfolding final_def by (rule pendingRoll_timeout)
  then have f: "dice final = reroll (frozenIds s) rnd 0 (dice s)"
    "score final = (\<Sum>d\<leftarrow>dice final. die_value d + 1)"
    "\<not> isRolling final" "timers final (nextTimer s) = None"
    by simp_all
  have nth: "\<forall>k<length (dice s). dice final ! k =
            (if die_id (dice s ! k) \<in> frozenIds s then dice s ! k
             else (dice s ! k)\<lparr>die_value :=
                    randomFace (rnd (length (filter (\<lambda>d. die_id d \<notin> frozenIds s)
                                               (take k (dice s)))))\<rparr>)"
    by (simp add: f(1) reroll_nth)
  have rng: "\<forall>k<length (dice s). die_id (dice s ! k) \<notin> frozenIds s \<longrightarrow>
             0 \<le> die_value (dice final ! k) \<and> die_value (dice final ! k) \<le> 5"
    if r: "\<forall>i. 0 \<le> rnd i \<and> rnd i < 1"
  proof (intro allI impI)
    fix k assume k: "k < length (dice s)" and u: "die_id (dice s ! k) \<notin> frozenIds s"
    from nth k u have "die_value (dice final ! k) =
        randomFace (rnd (length (filter (\<lambda>d. die_id d \<notin> frozenIds s) (take k (dice s)))))"
      by simp
    with r show "0 \<le> die_value (dice final ! k) \<and> die_value (dice final ! k) \<le> 5"
      by (simp add: randomFace_range)
  qed
  have "isRolling (rollDice s)"
    using assms(1) by (simp add: rollDice_def)
  with f nth rng show ?thesis
    unfolding final_def [symmetric] by (simp add: reroll_ids reroll_length)
qed

lemma reorder_ids:
  "map die_id (dice (run (rollDice midGame) reorderDuringRoll)) = [1, 2, 0, 3, 4]"
  by (simp add: reorderDuringRoll_def run_Cons run_Nil step_inGame rollDice_def midGame_fields
      intervalCallback_def handleDragStart_def handleDrop_def handleDragEnd_def
      splice_def spliceStart_def halfRandom_def randomFace_def Let_def)

theorem roll_completion_witness:
  "map die_id (dice (run (rollDice midGame) reorderDuringRoll)) = [1, 2, 0, 3, 4]
   \<and> isRolling (rollDice midGame)
   \<and> dice (step (run (rollDice midGame) reorderDuringRoll) (TimeoutFire 0) descendRandom) =
     [\<lparr>die_id = 0, die_value = 5\<rparr>, \<lparr>die_id = 1, die_value = 1\<rparr>, \<lparr>die_id = 2, die_value = 4\<rparr>,
      \<lparr>die_id = 3, die_value = 3\<rparr>, \<lparr>die_id = 4, die_value = 2\<rparr>]
   \<and> dice (step (run (rollDice midGame) reorderDuringRoll) (TimeoutFire 0) descendRandom) ! 2
       = \<lparr>die_id = 2, die_value = 4\<rparr>
   \<and> score (step (run (rollDice midGame) reorderDuringRoll) (TimeoutFire 0) descendRandom) = 20
   \<and> \<not> isRolling (step (run (rollDice midGame) reorderDuringRoll) (TimeoutFire 0) descendRandom)"
proof -
  have h1: "\<not> js_ge (Fin (int (currentRoll midGame))) (maxRolls midGame)"
    by (simp add: midGame_fields)
  have h2: "\<forall>x\<in>set reorderDuringRoll. fst x \<noteq> TimeoutFire (nextTimer midGame)"
    by (simp add: reorderDuringRoll_def)
  have d: "reroll (frozenIds midGame) descendRandom 0 (dice midGame) =
     [\<lparr>die_id = 0, die_value = 5\<rparr>, \<lparr>die_id = 1, die_value = 1\<rparr>, \<lparr>die_id = 2, die_value = 4\<rparr>,
      \<lparr>die_id = 3, die_value = 3\<rparr>, \<lparr>die_id = 4, die_value = 2\<rparr>]"
    by (simp add: midGame_fields descendRandom_def randomFace_def)
  have r: "\<forall>i. 0 \<le> descendRandom i \<and> descendRandom i < 1"
  proof (intro allI conjI)
    fix i
    show "0 \<le> descendRandom i" by (simp add: descendRandom_def)
    have "5 - i mod 6 < 6" by simp
    then have "(of_nat (5 - i mod 6) :: rat) < of_nat 6" by (simp only: of_nat_less_iff)
    then show "descendRandom i < 1" by (simp add: descendRandom_def)
  qed
  from roll_completion [OF h1 h2, of descendRandom] d r reorder_ids show ?thesis
    by (simp add: midGame_fields(5))
qed

section \<open>Frozen dice\<close>

text \<open>
  Claim C1.  First part: for a roll started in state \<open>s\<close>, the dice stored by every
  interval callback of this roll and by its timeout callback carry, position by
  position, the identifiers of the dice of \<open>s\<close>, and each die whose identifier is in
  the frozen set of \<open>s\<close> is stored with the value it had in \<open>s\<close>; this holds whatever
  other events come in between.  Second part: from a state with no pending timer, along
  every run of rolls, timer callbacks, drags and presentation events (any number of
  rolls, complete or not), the frozen set stays the same and the dice with a frozen
  identifier are the same dice with the same values in every state of the run.
\<close>

theorem frozen_dice_keep_value:
  "(\<not> js_ge (Fin (int (currentRoll s))) (maxRolls s)
      \<and> (\<forall>x\<in>set evs. fst x \<noteq> TimeoutFire (nextTimer s)) \<longrightarrow>
        frozenKept (frozenIds s) (dice s)
          (dice (step (run (rollDice s) evs) (IntervalFire (nextTimer s)) rnd))
      \<and> frozenKept (frozenIds s) (dice s)
          (dice (step (run (rollDice s) evs) (TimeoutFire (nextTimer s)) rnd)))
   \<and> (timers s' = (\<lambda>_. None)
      \<and> (\<forall>x\<in>set evs'. \<not> startsGame (fst x) \<and> \<not> togglesFreeze (fst x)) \<longrightarrow>
        frozenIds (run s' evs') = frozenIds s'
      \<and> set (frozenDice (frozenIds s') (dice (run s' evs')))
          = set (frozenDice (frozenIds s') (dice s')))"
proof (intro conjI impI)
  assume a: "\<not> js_ge (Fin (int (currentRoll s))) (maxRolls s)
      \<and> (\<forall>x\<in>set evs. fst x \<noteq> TimeoutFire (nextTimer s))"
  then have "pendingRoll (rollDice s) (nextTimer s) (frozenIds s) (dice s)"
    by (intro pendingRoll_start) simp
  then have p: "pendingRoll (run (rollDice s) evs) (nextTimer s) (frozenIds s) (dice s)"
    using a by (intro pendingRoll_run) simp_all
  then show "frozenKept (frozenIds s) (dice s)
          (dice (step (run (rollDice s) evs) (IntervalFire (nextTimer s)) rnd))"
    by (rule pendingRoll_interval)
  from p show "frozenKept (frozenIds s) (dice s)
          (dice (step (run (rollDice s) evs) (TimeoutFire (nextTimer s)) rnd))"
    by (simp add: pendingRoll_timeout reroll_frozenKept)
next
  assume b: "timers s' = (\<lambda>_. None)
      \<and> (\<forall>x\<in>set evs'. \<not> startsGame (fst x) \<and> \<not> togglesFreeze (fst x))"
  then have "frozenInv (frozenIds s') (set (frozenDice (frozenIds s') (dice s'))) s'"
    by (simp add: frozenInv_def)
  then have i: "frozenInv (frozenIds s') (set (frozenDice (frozenIds s') (dice s'))) (run s' evs')"
    using b by (intro frozenInv_run) simp_all
  from i show "frozenIds (run s' evs') = frozenIds s'"
    by (simp add: frozenInv_def)
  from i show "set (frozenDice (frozenIds s') (dice (run s' evs')))
          = set (frozenDice (frozenIds s') (dice s'))"
    by (simp add: frozenInv_def)
qed

theorem frozen_dice_keep_value_witness:
  "frozenKept (frozenIds midGame) (dice midGame)
      (dice (step (run (rollDice midGame) reorderDuringRoll) (IntervalFire (nextTimer midGame)) cycleRandom))
   \<and> frozenKept (frozenIds midGame) (dice midGame)
      (dice (step (run (rollDice midGame) reorderDuringRoll) (TimeoutFire (nextTimer midGame)) cycleRandom))
   \<and> frozenIds (run midGame threeRolls) = frozenIds midGame
   \<and> set (frozenDice (frozenIds midGame) (dice (run midGame threeRolls)))
        = set (frozenDice (frozenIds midGame) (dice midGame))
   \<and> frozenDice (frozenIds midGame) (dice midGame) = [\<lparr>die_id = 1, die_value = 1\<rparr>]"
proof -
  have h1: "\<not> js_ge (Fin (int (currentRoll midGame))) (maxRolls midGame)"
    by (simp add: midGame_fields)
  have h2: "\<forall>x\<in>set reorderDuringRoll. fst x \<noteq> TimeoutFire (nextTimer midGame)"
    by (simp add: reorderDuringRoll_def)
  have h3: "timers midGame = (\<lambda>_. None)"
    by (simp add: midGame_fields)
  have h4: "\<forall>x\<in>set threeRolls. \<not> startsGame (fst x) \<and> \<not> togglesFreeze (fst x)"
    by (simp add: threeRolls_def)
  have f: "frozenDice (frozenIds midGame) (dice midGame) = [\<lparr>die_id = 1, die_value = 1\<rparr>]"
    by (simp add: midGame_fields frozenDice_def)
  from frozen_dice_keep_value [of midGame reorderDuringRoll cycleRandom midGame threeRolls]
    h1 h2 h3 h4 f
  show ?thesis by blast
qed

end
